theory Spec2Isabelle
  imports Main "HOL-Library.Word"
begin

unbundle bit_operations_syntax

section \<open>Machine types and FIFO command words\<close>

text \<open>
  The fixed-width C types of the sources.  Signed and unsigned integers of one width are
  the same words (\<open>sint\<close> and \<open>unat\<close> read them); a \<open>float\<close> is carried as its 32-bit
  pattern, which is all that \<open>reinterpret_cast\<close> in \<open>write<float>\<close> and \<open>read<float>\<close>
  looks at.  \<open>size_t\<close> values (the read cursor, lengths) are natural numbers: a buffer
  never holds \<open>2 ^ 64\<close> words.
\<close>

type_synonym u8 = "8 word"
type_synonym u16 = "16 word"
type_synonym u32 = "32 word"
type_synonym u64 = "64 word"

text \<open>Namespace \<open>FIFO\<close> of \<open>include/cRIO/ModbusBuffer.h\<close>.\<close>

definition WRITE :: u16 where "WRITE = 0x1000"
definition TX_FRAMEEND :: u16 where "TX_FRAMEEND = 0x20DA"
definition DELAY :: u16 where "DELAY = 0x4000"
definition LONG_DELAY :: u16 where "LONG_DELAY = 0x5000"
definition TX_WAIT_RX :: u16 where "TX_WAIT_RX = 0x6000"
definition TX_WAIT_LONG_RX :: u16 where "TX_WAIT_LONG_RX = 0x9000"
definition RX_ENDFRAME :: u16 where "RX_ENDFRAME = 0xA000"
definition CMD_MASK :: u16 where "CMD_MASK = 0xF000"
definition TX_MASK :: u16 where "TX_MASK = 0x1200"
definition RX_MASK :: u16 where "RX_MASK = 0x9200"

section \<open>Exceptions\<close>

text \<open>
  Every \<open>throw\<close> of the sources is a constructor; the formatted message is replaced by
  the values it is built from.  \<open>UndefinedRead\<close> stands for reading \<open>_buffer[_index]\<close>
  past the end of the vector, which the sources do not guard in \<open>readDelay\<close> and
  \<open>readWaitForRx\<close>.
\<close>

datatype error =
    EndOfBuffer
  | CRCError u16 u16
  | UnmatchedFunction u8 u8
  | UnmatchedFunctionExpected u8 u8 u8 u8
  | UnknownResponse u8 u8
  | Exception u8 u8 u8
  | ExpectedDelay u16 nat
  | ExpectedWaitForRx u16 nat
  | ExpectedEndOfFrame u16 nat
  | InvalidLength17 u8
  | OutOfRange
  | UndefinedRead

text \<open>
  A method that can throw maps the object to a result and the object as the throw or
  the return leaves it: a C++ exception does not undo the mutations made before it.
\<close>

definition returnE :: "'a \<Rightarrow> 's \<Rightarrow> (error + 'a) \<times> 's" where
  "returnE a s = (Inr a, s)"

definition throwE :: "error \<Rightarrow> 's \<Rightarrow> (error + 'a) \<times> 's" where
  "throwE e s = (Inl e, s)"

definition bindE ::
  "('s \<Rightarrow> (error + 'a) \<times> 's) \<Rightarrow> ('a \<Rightarrow> 's \<Rightarrow> (error + 'b) \<times> 's) \<Rightarrow> 's \<Rightarrow> (error + 'b) \<times> 's" where
  "bindE m f s = (case m s of (Inl e, s') \<Rightarrow> (Inl e, s') | (Inr a, s') \<Rightarrow> f a s')"

text \<open>
  A \<open>void\<close> method that cannot throw, a getter, and a method that returns a value and
  cannot throw, as steps of such a computation.
\<close>

definition liftE :: "('s \<Rightarrow> 's) \<Rightarrow> 's \<Rightarrow> (error + unit) \<times> 's" where
  "liftE f s = (Inr (), f s)"

definition getE :: "('s \<Rightarrow> 'a) \<Rightarrow> 's \<Rightarrow> (error + 'a) \<times> 's" where
  "getE f s = (Inr (f s), s)"

definition valE :: "('s \<Rightarrow> 'a \<times> 's) \<Rightarrow> 's \<Rightarrow> (error + 'a) \<times> 's" where
  "valE f s = (case f s of (a, s') \<Rightarrow> (Inr a, s'))"

section \<open>Class \<open>ModbusBuffer::CRC\<close>\<close>

record CRC =
  crcCounter :: u16

definition CRC_reset :: "CRC \<Rightarrow> CRC" where
  "CRC_reset c = c\<lparr>crcCounter := 0xFFFF\<rparr>"

text \<open>The loop \<open>for (int j = 0; j < 8; j++)\<close> of \<open>CRC::add\<close>, started at \<open>j = 0\<close>.\<close>

function CRC_add_loop :: "nat \<Rightarrow> u16 \<Rightarrow> u16" where
  "CRC_add_loop j cnt =
     (if j < 8
      then (if cnt AND 0x0001 \<noteq> 0
            then CRC_add_loop (j + 1) (drop_bit 1 cnt XOR 0xA001)
            else CRC_add_loop (j + 1) (drop_bit 1 cnt))
      else cnt)"
  by pat_completeness auto
termination
  by (relation "measure (\<lambda>(j, cnt). 8 - j)") auto

declare CRC_add_loop.simps [simp del]

definition CRC_add :: "u8 \<Rightarrow> CRC \<Rightarrow> CRC" where
  "CRC_add data c = c\<lparr>crcCounter := CRC_add_loop 0 (crcCounter c XOR ucast data)\<rparr>"

definition CRC_get :: "CRC \<Rightarrow> u16" where
  "CRC_get c = crcCounter c"

text \<open>
  The reference Modbus CRC-16 as the specification words it, on natural numbers: start
  from \<open>0xFFFF\<close>; for each byte xor it in, then eight times halve the state and xor
  \<open>0xA001\<close> in when the bit shifted out was set; no final xor.
\<close>

definition crc16_shift :: "nat \<Rightarrow> nat" where
  "crc16_shift x = (if odd x then (x div 2) XOR 0xA001 else x div 2)"

definition crc16_byte :: "nat \<Rightarrow> nat \<Rightarrow> nat" where
  "crc16_byte x d = (crc16_shift ^^ 8) (x XOR d)"

definition modbus_crc16 :: "nat list \<Rightarrow> nat" where
  "modbus_crc16 ds = foldl crc16_byte 0xFFFF ds"

section \<open>Host byte order\<close>

text \<open>
  The object representation of an integer on the little-endian hosts the library runs
  on: \<open>host_bytes n d\<close> is what \<open>reinterpret_cast<uint8_t*>(&d)\<close> shows of an
  \<open>n\<close>-byte \<open>d\<close>, \<open>host_word\<close> is the value of a variable whose bytes were stored one by
  one.  \<open>htons\<close>, \<open>htonl\<close>, \<open>htobe64\<close> and their inverses reverse the bytes there.
\<close>

primrec host_bytes :: "nat \<Rightarrow> 'a::len word \<Rightarrow> u8 list" where
  "host_bytes 0 d = []"
| "host_bytes (Suc n) d = ucast d # host_bytes n (drop_bit 8 d)"

primrec host_word :: "u8 list \<Rightarrow> 'a::len word" where
  "host_word [] = 0"
| "host_word (b # bs) = ucast b OR push_bit 8 (host_word bs)"

definition byteswap :: "nat \<Rightarrow> 'a::len word \<Rightarrow> 'a word" where
  "byteswap n d = host_word (rev (host_bytes n d))"

definition htons :: "u16 \<Rightarrow> u16" where "htons = byteswap 2"
definition ntohs :: "u16 \<Rightarrow> u16" where "ntohs = byteswap 2"
definition htonl :: "u32 \<Rightarrow> u32" where "htonl = byteswap 4"
definition ntohl :: "u32 \<Rightarrow> u32" where "ntohl = byteswap 4"
definition htobe64 :: "u64 \<Rightarrow> u64" where "htobe64 = byteswap 8"
definition be64toh :: "u64 \<Rightarrow> u64" where "be64toh = byteswap 8"

section \<open>Class \<open>ModbusBuffer\<close>\<close>

record ModbusBuffer =
  buffer :: "u16 list"
  index :: nat
  crc :: CRC
  commanded :: "(u8 \<times> u8) list"
  recordChanges :: bool
  records :: "u8 list"

text \<open>
  \<open>getByteInstruction\<close> and \<open>readInstructionByte\<close> are virtual; the dynamic class of
  the object selects the base implementation or the override of \<open>ILC\<close>.
\<close>

datatype dyn_class = ModbusBuffer_class | ILC_class

definition reset :: "'a ModbusBuffer_scheme \<Rightarrow> 'a ModbusBuffer_scheme" where
  "reset s = s\<lparr>index := 0, crc := CRC_reset (crc s), recordChanges := False, records := []\<rparr>"

definition clear :: "bool \<Rightarrow> 'a ModbusBuffer_scheme \<Rightarrow> 'a ModbusBuffer_scheme" where
  "clear onlyBuffers s =
     reset (if onlyBuffers = False then s\<lparr>buffer := [], commanded := []\<rparr>
            else s\<lparr>buffer := []\<rparr>)"

definition endOfBuffer :: "'a ModbusBuffer_scheme \<Rightarrow> bool" where
  "endOfBuffer s = (index s \<ge> length (buffer s))"

definition pushBuffer :: "u16 \<Rightarrow> 'a ModbusBuffer_scheme \<Rightarrow> 'a ModbusBuffer_scheme" where
  "pushBuffer data s = s\<lparr>buffer := buffer s @ [data]\<rparr>"

definition getCalcCrc :: "'a ModbusBuffer_scheme \<Rightarrow> u16" where
  "getCalcCrc s = CRC_get (crc s)"

definition processDataCRC :: "u8 \<Rightarrow> 'a ModbusBuffer_scheme \<Rightarrow> 'a ModbusBuffer_scheme" where
  "processDataCRC data s =
     (let s1 = (if recordChanges s then s\<lparr>records := records s @ [data]\<rparr> else s)
      in s1\<lparr>crc := CRC_add data (crc s1)\<rparr>)"

fun getByteInstruction ::
  "dyn_class \<Rightarrow> u8 \<Rightarrow> 'a ModbusBuffer_scheme \<Rightarrow> u16 \<times> 'a ModbusBuffer_scheme" where
  "getByteInstruction ModbusBuffer_class data s = (ucast data, processDataCRC data s)"
| "getByteInstruction ILC_class data s =
     (TX_MASK OR push_bit 1 (ucast data), processDataCRC data s)"

fun readInstructionByte ::
  "dyn_class \<Rightarrow> 'a ModbusBuffer_scheme \<Rightarrow> (error + u8) \<times> 'a ModbusBuffer_scheme" where
  "readInstructionByte ModbusBuffer_class s =
     (if endOfBuffer s then throwE EndOfBuffer s
      else (Inr (ucast (buffer s ! index s)), s\<lparr>index := index s + 1\<rparr>))"
| "readInstructionByte ILC_class s =
     (if endOfBuffer s then throwE EndOfBuffer s
      else (Inr (ucast (drop_bit 1 (buffer s ! index s) AND 0xFF)), s\<lparr>index := index s + 1\<rparr>))"

lemma readInstructionByte_Inr:
  "readInstructionByte c s = (Inr d, s') \<Longrightarrow>
     buffer s' = buffer s \<and> index s' = index s + 1 \<and> index s < length (buffer s)"
  by (cases c) (auto simp: endOfBuffer_def throwE_def split: if_splits)

text \<open>
  \<open>getReadData\<close>: the loop variable starts at \<open>_index - length\<close> in \<open>size_t\<close> arithmetic
  (modulo \<open>2 ^ 64\<close>) and is compared with the live \<open>_index\<close> on every round.
\<close>

function getReadData_loop ::
  "dyn_class \<Rightarrow> nat \<Rightarrow> u8 list \<Rightarrow> 'a ModbusBuffer_scheme \<Rightarrow> (error + u8 list) \<times> 'a ModbusBuffer_scheme" where
  "getReadData_loop c i data s =
     (if i < index s
      then (case readInstructionByte c s of
              (Inl e, s') \<Rightarrow> (Inl e, s')
            | (Inr d, s') \<Rightarrow> getReadData_loop c (i + 1) (data @ [d]) s')
      else (Inr data, s))"
  by pat_completeness auto
termination
  apply (relation "measure (\<lambda>(c, i, data, s). length (buffer s) - index s)")
   apply simp
  apply (auto dest!: sym [of "(Inr _, _)"] readInstructionByte_Inr)
  done

declare getReadData_loop.simps [simp del]

definition getReadData ::
  "dyn_class \<Rightarrow> int \<Rightarrow> 'a ModbusBuffer_scheme \<Rightarrow> (error + u8 list) \<times> 'a ModbusBuffer_scheme" where
  "getReadData c len s = getReadData_loop c (nat ((int (index s) - len) mod 2 ^ 64)) [] s"

primrec readBuffer ::
  "dyn_class \<Rightarrow> nat \<Rightarrow> 'a ModbusBuffer_scheme \<Rightarrow> (error + u8 list) \<times> 'a ModbusBuffer_scheme" where
  "readBuffer c 0 s = (Inr [], s)"
| "readBuffer c (Suc len) s =
     (case readInstructionByte c s of
        (Inl e, s') \<Rightarrow> (Inl e, s')
      | (Inr d, s') \<Rightarrow>
          (case readBuffer c len (processDataCRC d s') of
             (Inl e, s'') \<Rightarrow> (Inl e, s'')
           | (Inr ds, s'') \<Rightarrow> (Inr (d # ds), s'')))"

primrec writeBuffer ::
  "dyn_class \<Rightarrow> u8 list \<Rightarrow> 'a ModbusBuffer_scheme \<Rightarrow> 'a ModbusBuffer_scheme" where
  "writeBuffer c [] s = s"
| "writeBuffer c (d # data) s =
     writeBuffer c data (case getByteInstruction c d s of (w, s') \<Rightarrow> pushBuffer w s')"

subsection \<open>The specializations of \<open>write\<close> and \<open>read\<close>\<close>

definition write_int8 :: "dyn_class \<Rightarrow> u8 \<Rightarrow> 'a ModbusBuffer_scheme \<Rightarrow> 'a ModbusBuffer_scheme" where
  "write_int8 c data = writeBuffer c (host_bytes 1 data)"

definition write_int16 :: "dyn_class \<Rightarrow> u16 \<Rightarrow> 'a ModbusBuffer_scheme \<Rightarrow> 'a ModbusBuffer_scheme" where
  "write_int16 c data = writeBuffer c (host_bytes 2 (htons data))"

definition write_int32 :: "dyn_class \<Rightarrow> u32 \<Rightarrow> 'a ModbusBuffer_scheme \<Rightarrow> 'a ModbusBuffer_scheme" where
  "write_int32 c data = writeBuffer c (host_bytes 4 (htonl data))"

definition write_uint8 :: "dyn_class \<Rightarrow> u8 \<Rightarrow> 'a ModbusBuffer_scheme \<Rightarrow> 'a ModbusBuffer_scheme" where
  "write_uint8 c data = writeBuffer c (host_bytes 1 data)"

definition write_uint16 :: "dyn_class \<Rightarrow> u16 \<Rightarrow> 'a ModbusBuffer_scheme \<Rightarrow> 'a ModbusBuffer_scheme" where
  "write_uint16 c data = writeBuffer c (host_bytes 2 (htons data))"

definition write_uint32 :: "dyn_class \<Rightarrow> u32 \<Rightarrow> 'a ModbusBuffer_scheme \<Rightarrow> 'a ModbusBuffer_scheme" where
  "write_uint32 c data = writeBuffer c (host_bytes 4 (htonl data))"

definition write_uint64 :: "dyn_class \<Rightarrow> u64 \<Rightarrow> 'a ModbusBuffer_scheme \<Rightarrow> 'a ModbusBuffer_scheme" where
  "write_uint64 c data = writeBuffer c (host_bytes 8 (htobe64 data))"

definition write_float :: "dyn_class \<Rightarrow> u32 \<Rightarrow> 'a ModbusBuffer_scheme \<Rightarrow> 'a ModbusBuffer_scheme" where
  "write_float c data = write_uint32 c data"

text \<open>\<open>writeI24\<close> takes an \<open>int32_t\<close>; its shifts are arithmetic, its casts keep 8 bits.\<close>

definition writeI24 :: "dyn_class \<Rightarrow> u32 \<Rightarrow> 'a ModbusBuffer_scheme \<Rightarrow> 'a ModbusBuffer_scheme" where
  "writeI24 c data s =
     (let (w1, s1) = getByteInstruction c (ucast (signed_drop_bit 16 data)) s;
          s1 = pushBuffer w1 s1;
          (w2, s2) = getByteInstruction c (ucast (signed_drop_bit 8 data)) s1;
          s2 = pushBuffer w2 s2;
          (w3, s3) = getByteInstruction c (ucast data) s2
      in pushBuffer w3 s3)"

definition read_int32 :: "dyn_class \<Rightarrow> 'a ModbusBuffer_scheme \<Rightarrow> (error + u32) \<times> 'a ModbusBuffer_scheme" where
  "read_int32 c = bindE (readBuffer c 4) (\<lambda>db. returnE (ntohl (host_word db)))"

definition read_uint8 :: "dyn_class \<Rightarrow> 'a ModbusBuffer_scheme \<Rightarrow> (error + u8) \<times> 'a ModbusBuffer_scheme" where
  "read_uint8 c = bindE (readBuffer c 1) (\<lambda>ret. returnE (host_word ret))"

definition read_uint16 :: "dyn_class \<Rightarrow> 'a ModbusBuffer_scheme \<Rightarrow> (error + u16) \<times> 'a ModbusBuffer_scheme" where
  "read_uint16 c = bindE (readBuffer c 2) (\<lambda>db. returnE (ntohs (host_word db)))"

definition read_uint32 :: "dyn_class \<Rightarrow> 'a ModbusBuffer_scheme \<Rightarrow> (error + u32) \<times> 'a ModbusBuffer_scheme" where
  "read_uint32 c = bindE (readBuffer c 4) (\<lambda>db. returnE (ntohl (host_word db)))"

definition read_uint64 :: "dyn_class \<Rightarrow> 'a ModbusBuffer_scheme \<Rightarrow> (error + u64) \<times> 'a ModbusBuffer_scheme" where
  "read_uint64 c = bindE (readBuffer c 8) (\<lambda>db. returnE (be64toh (host_word db)))"

definition read_float :: "dyn_class \<Rightarrow> 'a ModbusBuffer_scheme \<Rightarrow> (error + u32) \<times> 'a ModbusBuffer_scheme" where
  "read_float c = read_uint32 c"

text \<open>\<open>readU48\<close> stores six bytes behind the first two of a zeroed \<open>uint64_t\<close>.\<close>

definition readU48 :: "dyn_class \<Rightarrow> 'a ModbusBuffer_scheme \<Rightarrow> (error + u64) \<times> 'a ModbusBuffer_scheme" where
  "readU48 c = bindE (readBuffer c 6) (\<lambda>bs. returnE (be64toh (host_word ([0, 0] @ bs))))"

definition readString ::
  "dyn_class \<Rightarrow> nat \<Rightarrow> 'a ModbusBuffer_scheme \<Rightarrow> (error + u8 list) \<times> 'a ModbusBuffer_scheme" where
  "readString c len = readBuffer c len"

text \<open>
  The table of the specializations: the header declares the templates \<open>write<dt>\<close> and
  \<open>read<dt>\<close> and defines \<open>write\<close> for eight types and \<open>read\<close> for six; \<open>writeI24\<close> is
  a method of its own and has no reader.  A use of \<open>read\<close> at another type does not
  link.
\<close>

datatype dtype = Int8 | UInt8 | Int16 | UInt16 | Int32 | UInt32 | UInt64 | Float | Int24

datatype dval =
    VInt8 u8 | VUInt8 u8 | VInt16 u16 | VUInt16 u16 | VInt32 u32 | VUInt32 u32
  | VUInt64 u64 | VFloat u32 | VInt24 u32

fun dtype_of :: "dval \<Rightarrow> dtype" where
  "dtype_of (VInt8 v) = Int8"
| "dtype_of (VUInt8 v) = UInt8"
| "dtype_of (VInt16 v) = Int16"
| "dtype_of (VUInt16 v) = UInt16"
| "dtype_of (VInt32 v) = Int32"
| "dtype_of (VUInt32 v) = UInt32"
| "dtype_of (VUInt64 v) = UInt64"
| "dtype_of (VFloat v) = Float"
| "dtype_of (VInt24 v) = Int24"

fun write_dt :: "dyn_class \<Rightarrow> dval \<Rightarrow> 'a ModbusBuffer_scheme \<Rightarrow> 'a ModbusBuffer_scheme" where
  "write_dt c (VInt8 v) = write_int8 c v"
| "write_dt c (VUInt8 v) = write_uint8 c v"
| "write_dt c (VInt16 v) = write_int16 c v"
| "write_dt c (VUInt16 v) = write_uint16 c v"
| "write_dt c (VInt32 v) = write_int32 c v"
| "write_dt c (VUInt32 v) = write_uint32 c v"
| "write_dt c (VUInt64 v) = write_uint64 c v"
| "write_dt c (VFloat v) = write_float c v"
| "write_dt c (VInt24 v) = writeI24 c v"

fun read_dt ::
  "dyn_class \<Rightarrow> dtype \<Rightarrow> ('a ModbusBuffer_scheme \<Rightarrow> (error + dval) \<times> 'a ModbusBuffer_scheme) option" where
  "read_dt c Int32 = Some (bindE (read_int32 c) (\<lambda>v. returnE (VInt32 v)))"
| "read_dt c UInt8 = Some (bindE (read_uint8 c) (\<lambda>v. returnE (VUInt8 v)))"
| "read_dt c UInt16 = Some (bindE (read_uint16 c) (\<lambda>v. returnE (VUInt16 v)))"
| "read_dt c UInt32 = Some (bindE (read_uint32 c) (\<lambda>v. returnE (VUInt32 v)))"
| "read_dt c UInt64 = Some (bindE (read_uint64 c) (\<lambda>v. returnE (VUInt64 v)))"
| "read_dt c Float = Some (bindE (read_float c) (\<lambda>v. returnE (VFloat v)))"
| "read_dt c Int8 = None"
| "read_dt c Int16 = None"
| "read_dt c Int24 = None"

text \<open>
  \<open>write<T>(v); reset(); read<T>()\<close> on a cleared buffer: \<open>None\<close> when \<open>read<T>\<close> has no
  definition, else what the read returns or throws.
\<close>

definition write_reset_read ::
  "dyn_class \<Rightarrow> dval \<Rightarrow> 'a ModbusBuffer_scheme \<Rightarrow> (error + dval) option" where
  "write_reset_read c v s =
     (case read_dt c (dtype_of v) of
        None \<Rightarrow> None
      | Some rd \<Rightarrow> Some (fst (rd (reset (write_dt c v (clear False s))))))"

subsection \<open>CRC words, delays and waits\<close>

definition checkCRC :: "dyn_class \<Rightarrow> 'a ModbusBuffer_scheme \<Rightarrow> (error + unit) \<times> 'a ModbusBuffer_scheme" where
  "checkCRC c =
     bindE (getE getCalcCrc) (\<lambda>calCrc.
     bindE (liftE (\<lambda>s. s\<lparr>recordChanges := False\<rparr>)) (\<lambda>u.
     bindE (readBuffer c 2) (\<lambda>bs.
       let crc' = (host_word bs :: u16)
       in if crc' \<noteq> calCrc then throwE (CRCError calCrc crc')
          else liftE (\<lambda>s. s\<lparr>crc := CRC_reset (crc s)\<rparr>))))"

definition writeCRC :: "dyn_class \<Rightarrow> 'a ModbusBuffer_scheme \<Rightarrow> 'a ModbusBuffer_scheme" where
  "writeCRC c s =
     (let crc' = getCalcCrc s;
          (w1, s1) = getByteInstruction c (ucast (crc' AND 0xFF)) s;
          s1 = pushBuffer w1 s1;
          (w2, s2) = getByteInstruction c (ucast (drop_bit 8 crc' AND 0xFF)) s1;
          s2 = pushBuffer w2 s2
      in s2\<lparr>crc := CRC_reset (crc s2)\<rparr>)"

text \<open>The \<open>uint32_t\<close> expression is narrowed to the \<open>uint16_t\<close> parameter of \<open>pushBuffer\<close>.\<close>

definition writeDelay :: "u32 \<Rightarrow> 'a ModbusBuffer_scheme \<Rightarrow> 'a ModbusBuffer_scheme" where
  "writeDelay delayMicros =
     pushBuffer (ucast (if delayMicros > 0x0FFF
                        then (0x0FFF AND (delayMicros div 1000 + 1)) OR ucast LONG_DELAY
                        else delayMicros OR ucast DELAY))"

definition writeWaitForRx :: "u32 \<Rightarrow> 'a ModbusBuffer_scheme \<Rightarrow> 'a ModbusBuffer_scheme" where
  "writeWaitForRx timeoutMicros =
     pushBuffer (ucast (if timeoutMicros > 0x0FFF
                        then (0x0FFF AND (timeoutMicros div 1000 + 1)) OR ucast TX_WAIT_LONG_RX
                        else timeoutMicros OR ucast TX_WAIT_RX))"

definition readDelay :: "'a ModbusBuffer_scheme \<Rightarrow> (error + u32) \<times> 'a ModbusBuffer_scheme" where
  "readDelay s =
     (if index s \<ge> length (buffer s) then throwE UndefinedRead s
      else let w = buffer s ! index s; c = w AND 0xF000
           in if c = DELAY then returnE (ucast (0x0FFF AND w)) (s\<lparr>index := index s + 1\<rparr>)
              else if c = LONG_DELAY
              then returnE (ucast (0x0FFF AND w) * 1000) (s\<lparr>index := index s + 1\<rparr>)
              else throwE (ExpectedDelay w (index s)) s)"

definition setBuffer :: "u16 list \<Rightarrow> 'a ModbusBuffer_scheme \<Rightarrow> 'a ModbusBuffer_scheme" where
  "setBuffer words s = s\<lparr>buffer := words, index := 0, crc := CRC_reset (crc s)\<rparr>"

subsection \<open>Request ledger and change recording\<close>

definition pushCommanded :: "u8 \<Rightarrow> u8 \<Rightarrow> 'a ModbusBuffer_scheme \<Rightarrow> 'a ModbusBuffer_scheme" where
  "pushCommanded address function s =
     (if (address > 0 \<and> address < 248) \<or> address = 255
      then s\<lparr>commanded := commanded s @ [(address, function)]\<rparr>
      else s)"

definition checkCommanded ::
  "u8 \<Rightarrow> u8 \<Rightarrow> 'a ModbusBuffer_scheme \<Rightarrow> (error + unit) \<times> 'a ModbusBuffer_scheme" where
  "checkCommanded address function s =
     (case commanded s of
        [] \<Rightarrow> throwE (UnmatchedFunction address function) s
      | front # rest \<Rightarrow>
          (let s1 = s\<lparr>commanded := rest\<rparr>
           in if fst front \<noteq> address \<or> snd front \<noteq> function
              then throwE (UnmatchedFunctionExpected address function (fst front) (snd front)) s1
              else returnE () s1))"

text \<open>
  \<open>checkRecording\<close> takes \<open>cached\<close> by reference: the model returns the result together
  with what the caller's vector holds afterwards.
\<close>

definition checkRecording ::
  "u8 list \<Rightarrow> 'a ModbusBuffer_scheme \<Rightarrow> (bool \<times> u8 list) \<times> 'a ModbusBuffer_scheme" where
  "checkRecording cached s =
     (let s1 = s\<lparr>recordChanges := False\<rparr>
      in if cached = records s1 then ((True, cached), s1\<lparr>records := []\<rparr>)
         else ((False, records s1), s1\<lparr>records := []\<rparr>))"

section \<open>Class \<open>ILC\<close>\<close>

text \<open>
  Modelled from the spec: the enumeration \<open>ILCMode\<close> of the header \<open>cRIO/ILC.h\<close>, which
  is not among the sources; the values are those of the specification's list of ILC modes
  (0 = Standby, 1 = Disabled, 2 = Enabled, 3 = FirmwareUpdate, 4 = Fault).
\<close>

definition Standby :: u8 where "Standby = 0"
definition Disabled :: u8 where "Disabled = 1"
definition Enabled :: u8 where "Enabled = 2"
definition FirmwareUpdate :: u8 where "FirmwareUpdate = 3"
definition Fault :: u8 where "Fault = 4"

text \<open>
  The \<open>process...\<close> methods are pure virtual in \<open>ILC\<close>; a call is recorded, with its
  arguments, at the end of the log \<open>calls\<close>.
\<close>

datatype event =
    ProcessServerID u8 u64 u8 u8 u8 u8 u8 u8 "u8 list"
  | ProcessServerStatus u8 u8 u16 u16
  | ProcessChangeILCMode u8 u16
  | ProcessSetTempILCAddress u8 u8
  | ProcessResetServer u8

record ILC = ModbusBuffer +
  bus :: u8
  broadcastCounter :: u8
  alwaysTrigger :: bool
  cachedResponse :: "u8 \<rightharpoonup> (u8 \<rightharpoonup> u8 list)"
  lastMode :: "u8 \<rightharpoonup> u8"
  calls :: "event list"

definition ILC_new :: "u8 \<Rightarrow> ILC" where
  "ILC_new b =
     \<lparr>buffer = [], index = 0, crc = \<lparr>crcCounter = 0xFFFF\<rparr>, commanded = [],
      recordChanges = False, records = [],
      bus = b, broadcastCounter = 0, alwaysTrigger = False,
      cachedResponse = Map.empty, lastMode = Map.empty, calls = []\<rparr>"

definition processHook :: "event \<Rightarrow> 'a ILC_scheme \<Rightarrow> 'a ILC_scheme" where
  "processHook e s = s\<lparr>calls := calls s @ [e]\<rparr>"

definition ILC_writeEndOfFrame :: "'a ModbusBuffer_scheme \<Rightarrow> 'a ModbusBuffer_scheme" where
  "ILC_writeEndOfFrame = pushBuffer TX_FRAMEEND"

definition ILC_writeWaitForRx :: "u32 \<Rightarrow> 'a ModbusBuffer_scheme \<Rightarrow> 'a ModbusBuffer_scheme" where
  "ILC_writeWaitForRx timeoutMicros =
     pushBuffer (ucast (if timeoutMicros > 0x0FFF
                        then (0x0FFF AND (timeoutMicros div 1000 + 1)) OR ucast TX_WAIT_LONG_RX
                        else timeoutMicros OR ucast TX_WAIT_RX))"

definition ILC_readWaitForRx :: "'a ModbusBuffer_scheme \<Rightarrow> (error + u32) \<times> 'a ModbusBuffer_scheme" where
  "ILC_readWaitForRx s =
     (if index s \<ge> length (buffer s) then throwE UndefinedRead s
      else let w = buffer s ! index s; c = w AND 0xF000
           in if c = TX_WAIT_RX then returnE (ucast (0x0FFF AND w)) (s\<lparr>index := index s + 1\<rparr>)
              else if c = TX_WAIT_LONG_RX
              then returnE (ucast (0x0FFF AND w) * 1000) (s\<lparr>index := index s + 1\<rparr>)
              else throwE (ExpectedWaitForRx w (index s)) s)"

text \<open>
  \<open>ModbusBuffer::callFunction\<close> on an \<open>ILC\<close>: the virtual calls reach the overrides of
  \<open>ILC\<close>.  The parameter pack is a list of typed values, each written by its \<open>write\<close>;
  the overload without parameters is the empty list.
\<close>

definition callFunction ::
  "u8 \<Rightarrow> u8 \<Rightarrow> u32 \<Rightarrow> dval list \<Rightarrow> 'a ModbusBuffer_scheme \<Rightarrow> 'a ModbusBuffer_scheme" where
  "callFunction address function timeout params s =
     (let s1 = write_uint8 ILC_class address s;
          s2 = write_uint8 ILC_class function s1;
          s3 = fold (write_dt ILC_class) params s2;
          s4 = writeCRC ILC_class s3;
          s5 = ILC_writeEndOfFrame s4;
          s6 = ILC_writeWaitForRx timeout s5
      in pushCommanded address function s6)"

text \<open>
  Modelled from the spec: \<open>getLastMode\<close> of the header \<open>cRIO/ILC.h\<close>, which is not among
  the sources; it looks the address up in the last-mode map, and \<open>changeILCMode\<close> catches
  the \<open>std::out_of_range\<close> it throws when no mode is recorded.
\<close>

definition getLastMode :: "u8 \<Rightarrow> 'a ILC_scheme \<Rightarrow> (error + u8) \<times> 'a ILC_scheme" where
  "getLastMode address s =
     (case lastMode s address of None \<Rightarrow> throwE OutOfRange s | Some m \<Rightarrow> returnE m s)"

definition changeILCMode :: "u8 \<Rightarrow> u16 \<Rightarrow> 'a ILC_scheme \<Rightarrow> 'a ILC_scheme" where
  "changeILCMode address mode s =
     (let timeout =
            (case fst (getLastMode address s) of
               Inl e \<Rightarrow> 335
             | Inr m \<Rightarrow>
                 if (m = Standby \<and> mode = ucast FirmwareUpdate) \<or>
                    (m = FirmwareUpdate \<and> mode = ucast Standby)
                 then 100000 else 335)
      in callFunction address 65 timeout [VUInt16 mode] s)"

definition do_recordChanges :: "'a ModbusBuffer_scheme \<Rightarrow> 'a ModbusBuffer_scheme" where
  "do_recordChanges s = s\<lparr>recordChanges := True\<rparr>"

text \<open>
  \<open>responseMatchCached\<close>: \<open>at\<close> throws for an unknown address and the handler inserts the
  address with an empty snapshot for the function; \<open>operator[]\<close> inserts an empty snapshot
  for an unknown function.  \<open>checkRecording\<close> runs before \<open>_alwaysTrigger\<close> is looked at.
\<close>

definition responseMatchCached :: "u8 \<Rightarrow> u8 \<Rightarrow> 'a ILC_scheme \<Rightarrow> bool \<times> 'a ILC_scheme" where
  "responseMatchCached address func s =
     (let fc = (case cachedResponse s address of
                  None \<Rightarrow> [func \<mapsto> []]
                | Some fc \<Rightarrow> fc);
          cached = (case fc func of None \<Rightarrow> [] | Some v \<Rightarrow> v);
          ((r, cached'), s1) = checkRecording cached s
      in (r \<and> \<not> alwaysTrigger s1,
          s1\<lparr>cachedResponse := (cachedResponse s1)(address \<mapsto> fc(func \<mapsto> cached'))\<rparr>))"

subsection \<open>The responses registered by the constructor\<close>

definition ILC_response17 :: "u8 \<Rightarrow> 'a ILC_scheme \<Rightarrow> (error + unit) \<times> 'a ILC_scheme" where
  "ILC_response17 address =
     bindE (liftE do_recordChanges) (\<lambda>u.
     bindE (read_uint8 ILC_class) (\<lambda>fnLen.
       if fnLen < 12 then throwE (InvalidLength17 fnLen)
       else
         bindE (readU48 ILC_class) (\<lambda>uniqueID.
         bindE (read_uint8 ILC_class) (\<lambda>ilcAppType.
         bindE (read_uint8 ILC_class) (\<lambda>networkNodeType.
         bindE (read_uint8 ILC_class) (\<lambda>ilcSelectedOptions.
         bindE (read_uint8 ILC_class) (\<lambda>networkNodeOptions.
         bindE (read_uint8 ILC_class) (\<lambda>majorRev.
         bindE (read_uint8 ILC_class) (\<lambda>minorRev.
         bindE (readString ILC_class (unat (fnLen - 12))) (\<lambda>fwName.
         bindE (checkCRC ILC_class) (\<lambda>u.
         bindE (valE (responseMatchCached address 17)) (\<lambda>m.
           if m = False
           then liftE (processHook (ProcessServerID address uniqueID ilcAppType networkNodeType
                  ilcSelectedOptions networkNodeOptions majorRev minorRev fwName))
           else returnE ()))))))))))))"

definition ILC_response18 :: "u8 \<Rightarrow> 'a ILC_scheme \<Rightarrow> (error + unit) \<times> 'a ILC_scheme" where
  "ILC_response18 address =
     bindE (liftE do_recordChanges) (\<lambda>u.
     bindE (read_uint8 ILC_class) (\<lambda>mode.
     bindE (read_uint16 ILC_class) (\<lambda>status.
     bindE (read_uint16 ILC_class) (\<lambda>faults.
     bindE (checkCRC ILC_class) (\<lambda>u.
     bindE (valE (responseMatchCached address 18)) (\<lambda>m.
       if m = False
       then bindE (liftE (\<lambda>s. s\<lparr>lastMode := (lastMode s)(address \<mapsto> mode)\<rparr>)) (\<lambda>u.
            liftE (processHook (ProcessServerStatus address mode status faults)))
       else returnE ()))))))"

definition ILC_response65 :: "u8 \<Rightarrow> 'a ILC_scheme \<Rightarrow> (error + unit) \<times> 'a ILC_scheme" where
  "ILC_response65 address =
     bindE (liftE do_recordChanges) (\<lambda>u.
     bindE (read_uint16 ILC_class) (\<lambda>mode.
     bindE (checkCRC ILC_class) (\<lambda>u.
     bindE (valE (responseMatchCached address 65)) (\<lambda>m.
       if m = False
       then bindE (liftE (\<lambda>s. s\<lparr>lastMode := (lastMode s)(address \<mapsto> ucast mode)\<rparr>)) (\<lambda>u.
            liftE (processHook (ProcessChangeILCMode address mode)))
       else returnE ()))))"

definition ILC_response72 :: "u8 \<Rightarrow> 'a ILC_scheme \<Rightarrow> (error + unit) \<times> 'a ILC_scheme" where
  "ILC_response72 address =
     bindE (read_uint8 ILC_class) (\<lambda>newAddress.
     bindE (checkCRC ILC_class) (\<lambda>u.
     liftE (processHook (ProcessSetTempILCAddress address newAddress))))"

definition ILC_response107 :: "u8 \<Rightarrow> 'a ILC_scheme \<Rightarrow> (error + unit) \<times> 'a ILC_scheme" where
  "ILC_response107 address =
     bindE (checkCRC ILC_class) (\<lambda>u. liftE (processHook (ProcessResetServer address)))"

text \<open>
  The maps \<open>_actions\<close> and \<open>_errorActions\<close> as the five \<open>addResponse\<close> calls of the
  constructor leave them; no call passes an error action, so each is \<open>nullptr\<close>.
\<close>

type_synonym 'a action = "u8 \<Rightarrow> 'a ILC_scheme \<Rightarrow> (error + unit) \<times> 'a ILC_scheme"
type_synonym 'a errorAction = "u8 \<Rightarrow> u8 \<Rightarrow> 'a ILC_scheme \<Rightarrow> (error + unit) \<times> 'a ILC_scheme"

definition ILC_actions :: "u8 \<Rightarrow> 'a action option" where
  "ILC_actions func =
     (if func = 17 then Some ILC_response17
      else if func = 18 then Some ILC_response18
      else if func = 65 then Some ILC_response65
      else if func = 72 then Some ILC_response72
      else if func = 107 then Some ILC_response107
      else None)"

definition ILC_errorActions :: "u8 \<Rightarrow> (u8 \<times> 'a errorAction option) option" where
  "ILC_errorActions func =
     (if func = 145 then Some (17, None)
      else if func = 146 then Some (18, None)
      else if func = 193 then Some (65, None)
      else if func = 200 then Some (72, None)
      else if func = 235 then Some (107, None)
      else None)"

subsection \<open>\<open>processResponse\<close>\<close>

text \<open>One round of the \<open>while\<close> loop of \<open>processResponse\<close>.\<close>

definition processResponse_frame :: "'a ILC_scheme \<Rightarrow> (error + unit) \<times> 'a ILC_scheme" where
  "processResponse_frame =
     bindE (read_uint8 ILC_class) (\<lambda>address.
     bindE (read_uint8 ILC_class) (\<lambda>func.
     bindE (case (ILC_errorActions func :: (u8 \<times> 'a errorAction option) option) of
              None \<Rightarrow> checkCommanded address func
            | Some (f, ea) \<Rightarrow> checkCommanded address f) (\<lambda>u.
       case ILC_actions func of
         Some action \<Rightarrow> action address
       | None \<Rightarrow>
           (case (ILC_errorActions func :: (u8 \<times> 'a errorAction option) option) of
              Some (f, ea) \<Rightarrow>
                bindE (read_uint8 ILC_class) (\<lambda>exception.
                bindE (checkCRC ILC_class) (\<lambda>u.
                  case ea of
                    Some errorAction \<Rightarrow> errorAction address exception
                  | None \<Rightarrow> throwE (Exception address func exception)))
            | None \<Rightarrow> throwE (UnknownResponse address func)))))"

text \<open>
  Termination of the loop of \<open>processResponse\<close>: no step of a round changes the
  buffer or moves the cursor back, and a round that returns has read at least the address.
\<close>

definition mono_idx :: "('a ModbusBuffer_scheme \<Rightarrow> 'r \<times> 'a ModbusBuffer_scheme) \<Rightarrow> bool" where
  "mono_idx m = (\<forall>s. buffer (snd (m s)) = buffer s \<and> index s \<le> index (snd (m s)))"

lemma mono_idx_returnE: "mono_idx (returnE a)"
  by (simp add: mono_idx_def returnE_def)

lemma mono_idx_throwE: "mono_idx (throwE e)"
  by (simp add: mono_idx_def throwE_def)

lemma mono_idx_bindE: "mono_idx m \<Longrightarrow> (\<And>a. mono_idx (f a)) \<Longrightarrow> mono_idx (bindE m f)"
  unfolding mono_idx_def bindE_def
  apply (intro allI)
  subgoal for s
    apply (cases "m s")
    subgoal for r s1
      apply (cases r)
       apply (metis (mono_tags, lifting) old.prod.case old.sum.simps(5) snd_conv)
      apply simp
      apply (metis le_trans snd_conv)
      done
    done
  done

lemma processDataCRC_frame [simp]:
  "buffer (processDataCRC d s) = buffer s" "index (processDataCRC d s) = index s"
  by (simp_all add: processDataCRC_def Let_def)

lemma mono_idx_readInstructionByte: "mono_idx (readInstructionByte c)"
  by (cases c) (simp_all add: mono_idx_def throwE_def)

lemma mono_idx_readBuffer: "mono_idx (readBuffer c n)"
proof (induction n)
  case 0
  show ?case by (simp add: mono_idx_def)
next
  case (Suc n)
  show ?case
    unfolding mono_idx_def
  proof
    fix s :: "'a ModbusBuffer_scheme"
    obtain r s1 where r: "readInstructionByte c s = (r, s1)" by (cases "readInstructionByte c s")
    with mono_idx_readInstructionByte [of c] have a: "buffer s1 = buffer s \<and> index s \<le> index s1"
      unfolding mono_idx_def by (metis snd_conv)
    show "buffer (snd (readBuffer c (Suc n) s)) = buffer s \<and> index s \<le> index (snd (readBuffer c (Suc n) s))"
    proof (cases r)
      case (Inl e)
      with r a show ?thesis by simp
    next
      case (Inr d)
      obtain r2 s2 where r2: "readBuffer c n (processDataCRC d s1) = (r2, s2)"
        by (cases "readBuffer c n (processDataCRC d s1)")
      with Suc have b: "buffer s2 = buffer s1 \<and> index s1 \<le> index s2"
        unfolding mono_idx_def by (metis processDataCRC_frame snd_conv)
      from r Inr r2 a b show ?thesis by (cases r2) auto
    qed
  qed
qed


lemma mono_idx_liftE:
  "(\<And>s. buffer (g s) = buffer s \<and> index (g s) = index s) \<Longrightarrow> mono_idx (liftE g)"
  by (simp add: mono_idx_def liftE_def)

lemma mono_idx_getE: "mono_idx (getE g)"
  by (simp add: mono_idx_def getE_def)

lemma mono_idx_valE:
  "(\<And>s. buffer (snd (g s)) = buffer s \<and> index (snd (g s)) = index s) \<Longrightarrow> mono_idx (valE g)"
  by (simp add: mono_idx_def valE_def split: prod.splits) (metis order_refl snd_conv)

lemma mono_idx_if: "mono_idx m \<Longrightarrow> mono_idx n \<Longrightarrow> mono_idx (if b then m else n)"
  by simp

lemma mono_idx_let: "(\<And>x. mono_idx (f x)) \<Longrightarrow> mono_idx (Let v f)"
  by simp

lemmas mono_idx_intros =
  mono_idx_bindE mono_idx_returnE mono_idx_throwE mono_idx_readBuffer mono_idx_liftE
  mono_idx_getE mono_idx_valE mono_idx_if mono_idx_let

lemma mono_idx_reads:
  "mono_idx (read_uint8 c)" "mono_idx (read_uint16 c)" "mono_idx (read_uint32 c)"
  "mono_idx (read_uint64 c)" "mono_idx (read_int32 c)" "mono_idx (readU48 c)"
  "mono_idx (readString c n)"
  unfolding read_uint8_def read_uint16_def read_uint32_def read_uint64_def read_int32_def
    readU48_def readString_def
  by (intro mono_idx_intros)+

lemma mono_idx_checkCRC: "mono_idx (checkCRC c)"
  unfolding checkCRC_def
  by (intro mono_idx_intros) simp_all

lemma mono_idx_checkCommanded: "mono_idx (checkCommanded a f)"
  by (simp add: mono_idx_def checkCommanded_def throwE_def returnE_def Let_def split: list.splits)

lemma responseMatchCached_frame [simp]:
  "buffer (snd (responseMatchCached a f s)) = buffer s"
  "index (snd (responseMatchCached a f s)) = index s"
  by (simp_all add: responseMatchCached_def checkRecording_def Let_def split: prod.splits if_splits)

lemma processHook_frame [simp]:
  "buffer (processHook e s) = buffer s" "index (processHook e s) = index s"
  by (simp_all add: processHook_def)

lemma do_recordChanges_frame [simp]:
  "buffer (do_recordChanges s) = buffer s" "index (do_recordChanges s) = index s"
  by (simp_all add: do_recordChanges_def)

lemma mono_idx_responses:
  "mono_idx (ILC_response17 a)" "mono_idx (ILC_response18 a)" "mono_idx (ILC_response65 a)"
  "mono_idx (ILC_response72 a)" "mono_idx (ILC_response107 a)"
  unfolding ILC_response17_def ILC_response18_def ILC_response65_def ILC_response72_def
    ILC_response107_def
  by (intro mono_idx_intros mono_idx_reads mono_idx_checkCRC; simp)+

lemma mono_idx_actions: "ILC_actions func = Some action \<Longrightarrow> mono_idx (action a)"
  by (auto simp: ILC_actions_def mono_idx_responses split: if_splits)

lemma ILC_errorActions_None: "ILC_errorActions func = Some (f, ea) \<Longrightarrow> ea = None"
  by (auto simp: ILC_errorActions_def split: if_splits)

lemma mono_idx_dispatch:
  "mono_idx (case ILC_actions func of
         Some action \<Rightarrow> action address
       | None \<Rightarrow>
           (case (ILC_errorActions func :: (u8 \<times> 'a errorAction option) option) of
              Some (f, ea) \<Rightarrow>
                bindE (read_uint8 ILC_class) (\<lambda>exception.
                bindE (checkCRC ILC_class) (\<lambda>u.
                  case ea of
                    Some errorAction \<Rightarrow> errorAction address exception
                  | None \<Rightarrow> throwE (Exception address func exception)))
            | None \<Rightarrow> throwE (UnknownResponse address func)))"
proof (cases "ILC_actions func :: 'a action option")
  case (Some action)
  then show ?thesis by (simp add: mono_idx_actions)
next
  case noact: None
  show ?thesis
  proof (cases "ILC_errorActions func :: (u8 \<times> 'a errorAction option) option")
    case None
    with noact show ?thesis by (simp add: mono_idx_throwE)
  next
    case (Some p)
    obtain f ea where p: "p = (f, ea)" by (cases p)
    with Some have "ea = None" by (simp add: ILC_errorActions_None)
    with noact Some p show ?thesis
      by (auto intro!: mono_idx_intros mono_idx_reads mono_idx_checkCRC)
  qed
qed

lemma mono_idx_frame_rest:
  "mono_idx (\<lambda>s :: 'a ILC_scheme. (bindE (read_uint8 ILC_class) (\<lambda>func.
     bindE (case (ILC_errorActions func :: (u8 \<times> 'a errorAction option) option) of
              None \<Rightarrow> checkCommanded address func
            | Some (f, ea) \<Rightarrow> checkCommanded address f) (\<lambda>u.
       case ILC_actions func of
         Some action \<Rightarrow> action address
       | None \<Rightarrow>
           (case (ILC_errorActions func :: (u8 \<times> 'a errorAction option) option) of
              Some (f, ea) \<Rightarrow>
                bindE (read_uint8 ILC_class) (\<lambda>exception.
                bindE (checkCRC ILC_class) (\<lambda>u.
                  case ea of
                    Some errorAction \<Rightarrow> errorAction address exception
                  | None \<Rightarrow> throwE (Exception address func exception)))
            | None \<Rightarrow> throwE (UnknownResponse address func)))) s))"
  apply (intro mono_idx_bindE mono_idx_reads mono_idx_dispatch)
  apply (auto simp: mono_idx_checkCommanded split: option.splits)
  done

lemma read_uint8_Inr:
  "read_uint8 c s = (Inr a, s') \<Longrightarrow> buffer s' = buffer s \<and> index s' = index s + 1 \<and> index s < length (buffer s)"
  by (auto simp: read_uint8_def bindE_def returnE_def dest!: readInstructionByte_Inr split: prod.splits sum.splits)

lemma processResponse_frame_progress:
  assumes "processResponse_frame s = (Inr u, s')"
  shows "buffer s' = buffer s \<and> index s < index s'"
proof -
  from assms obtain a s1 where a: "read_uint8 ILC_class s = (Inr a, s1)"
    unfolding processResponse_frame_def bindE_def [of "read_uint8 ILC_class"]
    by (auto split: prod.splits sum.splits)
  with assms have "snd (bindE (read_uint8 ILC_class) (\<lambda>func.
     bindE (case (ILC_errorActions func :: (u8 \<times> 'a errorAction option) option) of
              None \<Rightarrow> checkCommanded a func
            | Some (f, ea) \<Rightarrow> checkCommanded a f) (\<lambda>u.
       case ILC_actions func of
         Some action \<Rightarrow> action a
       | None \<Rightarrow>
           (case (ILC_errorActions func :: (u8 \<times> 'a errorAction option) option) of
              Some (f, ea) \<Rightarrow>
                bindE (read_uint8 ILC_class) (\<lambda>exception.
                bindE (checkCRC ILC_class) (\<lambda>u.
                  case ea of
                    Some errorAction \<Rightarrow> errorAction a exception
                  | None \<Rightarrow> throwE (Exception a func exception)))
            | None \<Rightarrow> throwE (UnknownResponse a func)))) s1) = s'"
    unfolding processResponse_frame_def bindE_def [of "read_uint8 ILC_class"]
    by simp
  with mono_idx_frame_rest [of a] have "buffer s' = buffer s1 \<and> index s1 \<le> index s'"
    unfolding mono_idx_def by blast
  with read_uint8_Inr [OF a] show ?thesis by simp
qed

text \<open>The \<open>while (endOfBuffer() == false)\<close> loop of \<open>processResponse\<close>.\<close>

function processResponse_loop :: "'a ILC_scheme \<Rightarrow> (error + unit) \<times> 'a ILC_scheme" where
  "processResponse_loop s =
     (if endOfBuffer s = False
      then (case processResponse_frame s of
              (Inl e, s') \<Rightarrow> (Inl e, s')
            | (Inr u, s') \<Rightarrow> processResponse_loop s')
      else (Inr (), s))"
  by pat_completeness auto
termination
  apply (relation "measure (\<lambda>s. length (buffer s) - index s)")
   apply simp
  apply (auto simp: endOfBuffer_def dest!: sym [of "(Inr _, _)"] processResponse_frame_progress)
  done


declare processResponse_loop.simps [simp del]

text \<open>\<open>preProcess\<close> and \<open>postProcess\<close> are the empty defaults of \<open>ModbusBuffer\<close>.\<close>

definition processResponse :: "u16 list \<Rightarrow> 'a ILC_scheme \<Rightarrow> (error + unit) \<times> 'a ILC_scheme" where
  "processResponse response s = processResponse_loop (setBuffer response s)"

text \<open>
  \<open>TestFPGA::processServerStatus\<close> of \<open>tests/TestFPGA.cpp\<close>: how the simulated FPGA
  builds the answer to function 18 in its response buffer.
\<close>

definition TestFPGA_processServerStatus ::
  "u8 \<Rightarrow> u8 \<Rightarrow> u16 \<Rightarrow> u16 \<Rightarrow> 'a ModbusBuffer_scheme \<Rightarrow> 'a ModbusBuffer_scheme" where
  "TestFPGA_processServerStatus address mode status faults response =
     (let r1 = write_uint8 ILC_class address response;
          r2 = write_uint8 ILC_class 18 r1;
          r3 = write_uint8 ILC_class mode r2;
          r4 = write_uint16 ILC_class status r3;
          r5 = write_uint16 ILC_class faults r4
      in writeCRC ILC_class r5)"

text \<open>
  The scenario around change gating, with the values of \<open>tests/TestFPGA.cpp\<close>: an \<open>ILC\<close>
  that has asked address 8 for its status three times, and the answer (Standby, status 0,
  faults 0) twice over: as the simulated FPGA of the tests builds it, every byte under
  \<open>TX_MASK\<close>, and as \<open>processResponse\<close> documents its input, every byte shifted past the
  start bit under the response code \<open>RX_MASK\<close>.  The CRC of the seven bytes is \<open>0xB291\<close>,
  sent low byte first.  Each corrupted answer is the answer with its last word, the high
  CRC byte, replaced by a zero byte.
\<close>

definition S4_requests :: ILC where
  "S4_requests =
     callFunction 8 18 335 [] (callFunction 8 18 335 [] (callFunction 8 18 335 [] (ILC_new 1)))"

definition S4_response :: "u16 list" where
  "S4_response = buffer (TestFPGA_processServerStatus 8 Standby 0 0 (clear False (ILC_new 1)))"

definition S4_corrupted :: "u16 list" where
  "S4_corrupted = S4_response[8 := 0x1200]"

definition S4_received :: "u16 list" where
  "S4_received = [0x9210, 0x9224, 0x9200, 0x9200, 0x9200, 0x9200, 0x9200, 0x9322, 0x9364]"

definition S4_received_corrupted :: "u16 list" where
  "S4_received_corrupted = S4_received[8 := 0x9200]"

text \<open>
  The run of the scenario: \<open>processResponse\<close> on the corrupted answer, then twice on the
  valid answer, each call on the object as the call before left it (a \<open>throw\<close> leaves the
  members as they are).  The components are: what the first call returned; \<open>_alwaysTrigger\<close>,
  the cache entry of address 8 and the ledger after it; what the second and the third call
  returned; all calls of the \<open>process...\<close> hooks in order; the last mode of address 8.
\<close>

definition S4_scenario ::
  "u16 list \<Rightarrow> u16 list \<Rightarrow>
   (error + unit) \<times> bool \<times> (u8 \<rightharpoonup> u8 list) option \<times> (u8 \<times> u8) list \<times>
   (error + unit) \<times> (error + unit) \<times> event list \<times> u8 option" where
  "S4_scenario bad good =
     (let r1 = processResponse bad S4_requests;
          r2 = processResponse good (snd r1);
          r3 = processResponse good (snd r2)
      in (fst r1, alwaysTrigger (snd r1), cachedResponse (snd r1) 8, commanded (snd r1),
          fst r2, fst r3, calls (snd r3), lastMode (snd r3) 8))"

section \<open>Symbolic execution of writes and reads\<close>

text \<open>
  The word a byte is written as and the byte a word is read as, for each class, and the
  effect of \<open>processDataCRC\<close> over a sequence of bytes.
\<close>

fun enc :: "dyn_class \<Rightarrow> u8 \<Rightarrow> u16" where
  "enc ModbusBuffer_class d = ucast d"
| "enc ILC_class d = TX_MASK OR push_bit 1 (ucast d)"

fun dec :: "dyn_class \<Rightarrow> u16 \<Rightarrow> u8" where
  "dec ModbusBuffer_class w = ucast w"
| "dec ILC_class w = ucast (drop_bit 1 w AND 0xFF)"

definition accum :: "u8 list \<Rightarrow> 'a ModbusBuffer_scheme \<Rightarrow> 'a ModbusBuffer_scheme" where
  "accum ds s = s\<lparr>crc := fold CRC_add ds (crc s),
                  records := (if recordChanges s then records s @ ds else records s)\<rparr>"


lemma low_byte_bits:
  assumes "n < 8"
  shows "bit (0xFF :: u16) n" and "\<not> bit (0x900 :: u16) n"
proof -
  have "(0xFF :: u16) = mask 8" by (simp add: mask_eq_exp_minus_1)
  with assms show "bit (0xFF :: u16) n" by (simp only: bit_mask_iff) simp
  have "(0x900 :: u16) = push_bit 8 9" by simp
  with assms show "\<not> bit (0x900 :: u16) n" by (simp only: bit_push_bit_iff) simp
qed

lemma dec_enc_ILC: "ucast (drop_bit 1 (TX_MASK OR push_bit 1 (ucast d :: u16)) AND 0xFF) = (d :: u8)"
proof (rule bit_word_eqI)
  fix n :: nat
  assume "n < LENGTH(8)"
  then have n: "n < 8" by simp
  note a = low_byte_bits(1) [OF n] and b = low_byte_bits(2) [OF n]
  have d: "bit (ucast d * 2 :: u16) (Suc n) = bit (ucast d :: u16) n"
    using n bit_double_Suc_iff [of "ucast d :: u16" n] by (simp only: mult.commute [of _ 2]) simp
  show "bit (ucast (drop_bit 1 (TX_MASK OR push_bit 1 (ucast d :: u16)) AND 0xFF) :: u8) n = bit d n"
    using n a b
    by (simp add: TX_MASK_def bit_ucast_iff bit_and_iff bit_drop_bit_eq bit_or_iff d)
qed

lemma dec_enc [simp]: "dec c (enc c d) = d"
proof (cases c)
  case ModbusBuffer_class
  then show ?thesis by (simp add: bit_eq_iff bit_simps)
next
  case ILC_class
  with dec_enc_ILC show ?thesis by simp
qed

lemma map_dec_enc [simp]: "map (dec c \<circ> enc c) ds = ds"
  by (induction ds) simp_all

lemma getByteInstruction_eq: "getByteInstruction c d s = (enc c d, processDataCRC d s)"
  by (cases c) simp_all

lemma readInstructionByte_eq:
  "readInstructionByte c s =
     (if index s \<ge> length (buffer s) then (Inl EndOfBuffer, s)
      else (Inr (dec c (buffer s ! index s)), s\<lparr>index := index s + 1\<rparr>))"
  by (cases c) (simp_all add: endOfBuffer_def throwE_def)

lemma accum_Nil [simp]: "accum [] s = s"
  by (simp add: accum_def)

lemma accum_sel [simp]:
  "buffer (accum ds s) = buffer s" "index (accum ds s) = index s"
  "crc (accum ds s) = fold CRC_add ds (crc s)"
  "recordChanges (accum ds s) = recordChanges s"
  "records (accum ds s) = (if recordChanges s then records s @ ds else records s)"
  "commanded (accum ds s) = commanded s"
  by (simp_all add: accum_def)

lemma accum_Cons: "accum (d # ds) s = accum ds (processDataCRC d s)"
  by (simp add: accum_def processDataCRC_def Let_def)

lemma accum_append: "accum (xs @ ys) s = accum ys (accum xs s)"
  by (simp add: accum_def)

lemma writeBuffer_eq:
  "writeBuffer c ds s = accum ds (s\<lparr>buffer := buffer s @ map (enc c) ds\<rparr>)"
proof (induction ds arbitrary: s)
  case Nil
  show ?case by simp
next
  case (Cons d ds)
  show ?case
    by (simp add: Cons getByteInstruction_eq pushBuffer_def accum_def processDataCRC_def Let_def)
qed

lemma readBuffer_eq:
  "index s + n \<le> length (buffer s) \<Longrightarrow>
   readBuffer c n s =
     (Inr (map (dec c) (take n (drop (index s) (buffer s)))),
      accum (map (dec c) (take n (drop (index s) (buffer s)))) (s\<lparr>index := index s + n\<rparr>))"
proof (induction n arbitrary: s)
  case 0
  show ?case by simp
next
  case (Suc n)
  from Suc.prems have lt: "index s < length (buffer s)" by simp
  let ?s1 = "processDataCRC (dec c (buffer s ! index s)) (s\<lparr>index := Suc (index s)\<rparr>)"
  have b: "buffer ?s1 = buffer s" "index ?s1 = Suc (index s)" by simp_all
  from Suc.prems have "index ?s1 + n \<le> length (buffer ?s1)" by simp
  note ih = Suc.IH [OF this]
  have t: "take (Suc n) (drop (index s) (buffer s)) =
           buffer s ! index s # take n (drop (Suc (index s)) (buffer s))"
    using lt by (simp add: take_Suc Cons_nth_drop_Suc [symmetric] drop_Suc tl_drop)
  show ?case
    using lt
    apply (simp add: readInstructionByte_eq ih t)
    apply (simp add: accum_def processDataCRC_def Let_def)
    done
qed

lemma length_host_bytes [simp]: "length (host_bytes n d) = n"
  by (induction n arbitrary: d) simp_all

lemma nth_host_bytes: "i < n \<Longrightarrow> host_bytes n d ! i = ucast (drop_bit (8 * i) d)"
proof (induction n arbitrary: d i)
  case 0
  then show ?case by simp
next
  case (Suc n)
  show ?case
  proof (cases i)
    case 0
    then show ?thesis by simp
  next
    case (Suc j)
    with Suc.prems have "j < n" by simp
    from Suc.IH [OF this, of "drop_bit 8 d"] Suc show ?thesis
      by (simp add: add.commute)
  qed
qed

lemma bit_host_word:
  "bit (host_word bs :: 'a::len word) k \<longleftrightarrow>
     k < LENGTH('a) \<and> k div 8 < length bs \<and> bit (bs ! (k div 8)) (k mod 8)"
proof (induction bs arbitrary: k)
  case Nil
  show ?case by simp
next
  case (Cons b bs)
  show ?case
  proof (cases "k < 8")
    case True
    then show ?thesis
      by (auto simp: bit_or_iff bit_ucast_iff bit_push_bit_iff dest: bit_imp_le_length)
  next
    case False
    then obtain j where j: "k = j + 8"
      by (metis add.commute le_Suc_ex not_less)
    have "bit (ucast b :: 'a word) (j + 8) = False"
      by (auto simp: bit_ucast_iff dest: bit_imp_le_length)
    moreover have "(j + 8) div 8 = Suc (j div 8)" "(j + 8) mod 8 = j mod 8"
      by simp_all
    ultimately show ?thesis
      using Cons [of j]
      by (auto simp: j bit_or_iff bit_push_bit_iff dest: bit_imp_le_length)
  qed
qed

lemma host_word_host_bytes:
  "LENGTH('a) \<le> 8 * n \<Longrightarrow> host_word (host_bytes n d) = (d :: 'a::len word)"
proof (rule bit_word_eqI)
  fix k
  assume a: "LENGTH('a) \<le> 8 * n" and k: "k < LENGTH('a)"
  then have "k div 8 < n" by (simp add: less_mult_imp_div_less mult.commute)
  with k show "bit (host_word (host_bytes n d) :: 'a word) k = bit d k"
    by (simp add: bit_host_word nth_host_bytes bit_ucast_iff bit_drop_bit_eq)
qed

lemma host_bytes_host_word:
  "8 * length bs \<le> LENGTH('a) \<Longrightarrow> host_bytes (length bs) (host_word bs :: 'a::len word) = bs"
proof (rule nth_equalityI)
  show "length (host_bytes (length bs) (host_word bs :: 'a word)) = length bs" by simp
next
  fix i
  assume a: "8 * length bs \<le> LENGTH('a)" and "i < length (host_bytes (length bs) (host_word bs :: 'a word))"
  then have i: "i < length bs" by simp
  show "host_bytes (length bs) (host_word bs :: 'a word) ! i = bs ! i"
  proof (rule bit_word_eqI)
    fix k
    assume "k < LENGTH(8)"
    then have k: "k < 8" by simp
    with i a have "8 * i + k < LENGTH('a)" by linarith
    with i k show "bit (host_bytes (length bs) (host_word bs :: 'a word) ! i) k = bit (bs ! i) k"
      by (simp add: nth_host_bytes bit_ucast_iff bit_drop_bit_eq bit_host_word add.commute)
  qed
qed

lemma host_bytes_byteswap:
  "8 * n \<le> LENGTH('a) \<Longrightarrow> host_bytes n (byteswap n d :: 'a::len word) = rev (host_bytes n d)"
  using host_bytes_host_word [of "rev (host_bytes n d)", where ?'a = 'a]
  by (simp add: byteswap_def)

lemma byteswap_host_word_rev:
  "LENGTH('a) = 8 * n \<Longrightarrow> byteswap n (host_word (rev (host_bytes n d)) :: 'a::len word) = d"
  using host_bytes_byteswap [of n d] host_word_host_bytes [of n d]
  by (simp add: byteswap_def)


lemma clear_sel [simp]:
  "buffer (clear b s) = []" "index (clear b s) = 0" "crc (clear b s) = CRC_reset (crc s)"
  "recordChanges (clear b s) = False" "records (clear b s) = []"
  by (simp_all add: clear_def reset_def)

lemma reset_sel [simp]:
  "buffer (reset s) = buffer s" "index (reset s) = 0" "crc (reset s) = CRC_reset (crc s)"
  "recordChanges (reset s) = False" "records (reset s) = []" "commanded (reset s) = commanded s"
  by (simp_all add: reset_def)

lemma bytes_roundtrip:
  "n = length bs \<Longrightarrow> fst (readBuffer c n (reset (writeBuffer c bs (clear b s)))) = Inr bs"
  by (simp add: readBuffer_eq writeBuffer_eq)

lemma read_via_bytes:
  "fst (readBuffer c n s) = Inr bs \<Longrightarrow> g bs = v \<Longrightarrow>
   fst (bindE (readBuffer c n) (\<lambda>x. returnE (g x)) s) = Inr v"
  by (cases "readBuffer c n s") (simp add: bindE_def returnE_def)

lemma ntoh_hton:
  "ntohs (host_word (rev (host_bytes 2 v))) = v"
  "ntohl (host_word (rev (host_bytes 4 w))) = w"
  "be64toh (host_word (rev (host_bytes 8 x))) = x"
  by (simp_all add: ntohs_def ntohl_def be64toh_def byteswap_host_word_rev)

lemma hton_bytes:
  "host_bytes 2 (htons v) = rev (host_bytes 2 v)"
  "host_bytes 4 (htonl w) = rev (host_bytes 4 w)"
  "host_bytes 8 (htobe64 x) = rev (host_bytes 8 x)"
  by (simp_all add: htons_def htonl_def htobe64_def host_bytes_byteswap)

lemma host_word_single: "host_word (host_bytes 1 v) = (v :: u8)"
  by (rule host_word_host_bytes) simp

lemma roundtrip_uint8: "fst (read_uint8 c (reset (write_uint8 c v (clear b s)))) = Inr v"
  unfolding read_uint8_def write_uint8_def
  by (rule read_via_bytes [where bs = "host_bytes 1 v"], rule bytes_roundtrip)
     (simp_all only: length_host_bytes host_word_single)

lemma roundtrip_uint16: "fst (read_uint16 c (reset (write_uint16 c v (clear b s)))) = Inr v"
  unfolding read_uint16_def write_uint16_def hton_bytes
  by (rule read_via_bytes [where bs = "rev (host_bytes 2 v)"], rule bytes_roundtrip)
     (simp_all only: length_rev length_host_bytes ntoh_hton)

lemma roundtrip_uint32: "fst (read_uint32 c (reset (write_uint32 c v (clear b s)))) = Inr v"
  unfolding read_uint32_def write_uint32_def hton_bytes
  by (rule read_via_bytes [where bs = "rev (host_bytes 4 v)"], rule bytes_roundtrip)
     (simp_all only: length_rev length_host_bytes ntoh_hton)

lemma roundtrip_int32: "fst (read_int32 c (reset (write_int32 c v (clear b s)))) = Inr v"
  unfolding read_int32_def write_int32_def hton_bytes
  by (rule read_via_bytes [where bs = "rev (host_bytes 4 v)"], rule bytes_roundtrip)
     (simp_all only: length_rev length_host_bytes ntoh_hton)

lemma roundtrip_uint64: "fst (read_uint64 c (reset (write_uint64 c v (clear b s)))) = Inr v"
  unfolding read_uint64_def write_uint64_def hton_bytes
  by (rule read_via_bytes [where bs = "rev (host_bytes 8 v)"], rule bytes_roundtrip)
     (simp_all only: length_rev length_host_bytes ntoh_hton)

lemma roundtrip_float: "fst (read_float c (reset (write_float c v (clear b s)))) = Inr v"
  unfolding read_float_def write_float_def by (rule roundtrip_uint32)

text \<open>
  Claim C3, as amended.  For every value \<open>v\<close> of a type for which the header defines both
  \<open>write\<close> and \<open>read\<close> (\<open>uint8_t\<close>, \<open>uint16_t\<close>, \<open>int32_t\<close>, \<open>uint32_t\<close>, \<open>uint64_t\<close>
  and \<open>float\<close>, a float being its bit pattern), writing \<open>v\<close> into a cleared buffer,
  \<open>reset()\<close> and \<open>read\<close> at the same type return \<open>v\<close>, with the base byte encoding and
  with the one of \<open>ILC\<close>.
\<close>

theorem write_reset_read_roundtrip:
  assumes "dtype_of v \<in> {UInt8, UInt16, Int32, UInt32, UInt64, Float}"
  shows "write_reset_read c v s = Some (Inr v)"
proof (cases v)
  case (VUInt8 x)
  then show ?thesis
    using roundtrip_uint8 [of c x False s]
    by (cases "read_uint8 c (reset (write_uint8 c x (clear False s)))")
       (simp add: write_reset_read_def bindE_def returnE_def)
next
  case (VUInt16 x)
  then show ?thesis
    using roundtrip_uint16 [of c x False s]
    by (cases "read_uint16 c (reset (write_uint16 c x (clear False s)))")
       (simp add: write_reset_read_def bindE_def returnE_def)
next
  case (VInt32 x)
  then show ?thesis
    using roundtrip_int32 [of c x False s]
    by (cases "read_int32 c (reset (write_int32 c x (clear False s)))")
       (simp add: write_reset_read_def bindE_def returnE_def)
next
  case (VUInt32 x)
  then show ?thesis
    using roundtrip_uint32 [of c x False s]
    by (cases "read_uint32 c (reset (write_uint32 c x (clear False s)))")
       (simp add: write_reset_read_def bindE_def returnE_def)
next
  case (VUInt64 x)
  then show ?thesis
    using roundtrip_uint64 [of c x False s]
    by (cases "read_uint64 c (reset (write_uint64 c x (clear False s)))")
       (simp add: write_reset_read_def bindE_def returnE_def)
next
  case (VFloat x)
  then show ?thesis
    using roundtrip_float [of c x False s]
    by (cases "read_float c (reset (write_float c x (clear False s)))")
       (simp add: write_reset_read_def bindE_def returnE_def)
qed (use assms in simp_all)

theorem write_reset_read_roundtrip_witness:
  "dtype_of (VUInt16 0x1234) \<in> {UInt8, UInt16, Int32, UInt32, UInt64, Float} \<and>
   write_reset_read ILC_class (VUInt16 0x1234) (ILC_new 1) = Some (Inr (VUInt16 0x1234))"
  using write_reset_read_roundtrip [of "VUInt16 0x1234" ILC_class "ILC_new 1"] by simp

text \<open>
  The claim as stated, with \<open>int8_t\<close>, \<open>int16_t\<close> and the 24-bit integers among the types,
  fails: \<open>read<int8_t>\<close> has no definition, so the round trip cannot be formed.
\<close>

theorem write_reset_read_int8_counterexample:
  "write_reset_read ILC_class (VInt8 5) (ILC_new 1) = None"
  by (simp add: write_reset_read_def)

text \<open>On the wire the most significant byte comes first, one \<open>WRITE\<close> word per byte.\<close>

lemma write_uint16_wire:
  "buffer (write_uint16 ILC_class 0x1234 (ILC_new 1)) = [0x1224, 0x1268]"
  by code_simp

section \<open>The CRC, the ledger, the recording and \<open>getReadData\<close>\<close>

lemma unat_crc16_shift:
  "unat (if x AND 0x0001 \<noteq> 0 then drop_bit 1 x XOR 0xA001 else drop_bit 1 x :: u16) = crc16_shift (unat x)"
proof -
  have "odd (unat x) = bit (unat x) 0" by (simp add: bit_0)
  also have "\<dots> = bit x 0" by (simp add: bit_unsigned_iff)
  finally have a: "(x AND 1 \<noteq> 0) = odd (unat x)"
    by (simp add: and_one_eq mod_2_eq_odd bit_0)
  have b: "unat (drop_bit 1 x) = unat x div 2"
    by (simp add: drop_bit_Suc unat_div)
  show ?thesis
    using a b by (simp add: crc16_shift_def unsigned_xor_eq)
qed

lemma CRC_add_loop_funpow:
  "j \<le> 8 \<Longrightarrow> unat (CRC_add_loop j x) = (crc16_shift ^^ (8 - j)) (unat x)"
proof (induction j x rule: CRC_add_loop.induct)
  case (1 j x)
  show ?case
  proof (cases "j < 8")
    case True
    then have e: "8 - j = Suc (8 - (j + 1))" by simp
    from True 1 show ?thesis
      apply (subst CRC_add_loop.simps)
      apply (subst e)
      apply (simp only: funpow_Suc_right o_apply)
      using unat_crc16_shift [of x]
      apply (auto split: if_splits)
      done
  next
    case False
    with 1 show ?thesis by (subst CRC_add_loop.simps) simp
  qed
qed

lemma unat_CRC_add:
  "unat (crcCounter (CRC_add d c)) = crc16_byte (unat (crcCounter c)) (unat d)"
proof -
  have "unat (ucast d :: u16) = unat d"
    by (simp add: unsigned_ucast_eq take_bit_nat_eq_self_iff)
       (rule less_trans [OF unsigned_less], simp)
  then show ?thesis
    by (simp add: CRC_add_def CRC_add_loop_funpow crc16_byte_def unsigned_xor_eq)
qed

lemma unat_fold_CRC_add:
  "unat (crcCounter (fold CRC_add ds c)) = foldl crc16_byte (unat (crcCounter c)) (map unat ds)"
  by (induction ds arbitrary: c) (simp_all add: unat_CRC_add)

lemma fold_processDataCRC: "fold processDataCRC ds s = accum ds s"
  by (induction ds arbitrary: s) (simp_all add: accum_Cons)

text \<open>
  Claim C5.  For every sequence of payload bytes the CRC accumulator, started by \<open>reset\<close>
  and fed byte by byte, holds the reference Modbus CRC-16 of the sequence, and the getter
  returns that value with no final xor; the same holds for the CRC of a buffer fed through
  \<open>processDataCRC\<close> after \<open>reset()\<close>.
\<close>

theorem CRC_is_modbus_crc16:
  "unat (CRC_get (fold CRC_add ds (CRC_reset c))) = modbus_crc16 (map unat ds) \<and>
   unat (getCalcCrc (fold processDataCRC ds (reset s))) = modbus_crc16 (map unat ds)"
  by (simp add: CRC_get_def getCalcCrc_def fold_processDataCRC unat_fold_CRC_add modbus_crc16_def
      CRC_reset_def)

text \<open>The check value of CRC-16/MODBUS: the ASCII digits 1 to 9 give \<open>0x4B37\<close>.\<close>

lemma CRC_check_value:
  "CRC_get (fold CRC_add (map (of_nat \<circ> of_char) ''123456789'') (CRC_reset c)) = 0x4B37"
  by (simp add: CRC_get_def CRC_add_def CRC_reset_def CRC_add_loop.simps)

text \<open>
  Claim C7.  \<open>checkCommanded(a, f)\<close> on an empty ledger throws \<open>UnmatchedFunction\<close> with
  \<open>(a, f)\<close> and changes nothing; otherwise it removes the front pair, returns when that
  pair is \<open>(a, f)\<close> and throws \<open>UnmatchedFunction\<close> with \<open>(a, f)\<close> and the removed pair
  when it is not: the front element is consumed in both cases.
\<close>

theorem checkCommanded_pops_front:
  "checkCommanded a f s =
     (case commanded s of
        [] \<Rightarrow> (Inl (UnmatchedFunction a f), s)
      | p # rest \<Rightarrow>
          (if p = (a, f) then Inr () else Inl (UnmatchedFunctionExpected a f (fst p) (snd p)),
           s\<lparr>commanded := rest\<rparr>))"
  by (auto simp: checkCommanded_def throwE_def returnE_def Let_def split: list.splits)

text \<open>
  Claim C8.  \<open>checkRecording(c)\<close> turns recording off and empties the record; when the
  record equals \<open>c\<close> it returns true and leaves \<open>c\<close>, otherwise it returns false and
  leaves the record in \<open>c\<close>.
\<close>

theorem checkRecording_swaps:
  "checkRecording c s =
     ((c = records s, if c = records s then c else records s),
      s\<lparr>recordChanges := False, records := []\<rparr>)"
  by (simp add: checkRecording_def Let_def)

lemma getReadData_loop_EndOfBuffer:
  "i < index s \<Longrightarrow> fst (getReadData_loop c i data s) = Inl EndOfBuffer"
proof (induction c i data s rule: getReadData_loop.induct)
  case (1 c i data s)
  show ?case
  proof (cases "index s \<ge> length (buffer s)")
    case True
    with 1(2) show ?thesis
      by (subst getReadData_loop.simps) (simp add: readInstructionByte_eq)
  next
    case False
    let ?s' = "s\<lparr>index := index s + 1\<rparr>"
    let ?d = "dec c (buffer s ! index s)"
    from False have r: "readInstructionByte c s = (Inr ?d, ?s')"
      by (simp add: readInstructionByte_eq)
    from 1(2) have "i + 1 < index ?s'" by simp
    with 1(1) [OF 1(2) r [symmetric] refl] r 1(2) show ?thesis
      by (subst getReadData_loop.simps) simp
  qed
qed

text \<open>
  Claim C10.  With a cursor in the range of \<open>size_t\<close>, \<open>getReadData(length)\<close> for
  \<open>1 \<le> length \<le> _index\<close> ends with \<open>EndOfBuffer\<close> and never returns, whatever the
  buffer holds; for \<open>length = 0\<close> it returns the empty vector and changes nothing.
\<close>

theorem getReadData_throws:
  assumes "index s < 2 ^ 64"
  shows "(1 \<le> len \<and> len \<le> int (index s) \<longrightarrow> fst (getReadData c len s) = Inl EndOfBuffer) \<and>
         getReadData c 0 s = (Inr [], s)"
proof (intro conjI impI)
  assume l: "1 \<le> len \<and> len \<le> int (index s)"
  then have "(int (index s) - len) mod 2 ^ 64 \<le> int (index s) - len"
    by (intro zmod_le_nonneg_dividend) simp
  with l have "nat ((int (index s) - len) mod 2 ^ 64) < index s" by linarith
  then show "fst (getReadData c len s) = Inl EndOfBuffer"
    unfolding getReadData_def by (rule getReadData_loop_EndOfBuffer)
next
  from assms have "nat (int (index s) mod 2 ^ 64) = index s"
    by (simp add: nat_mod_distrib)
  then show "getReadData c 0 s = (Inr [], s)"
    by (simp add: getReadData_def getReadData_loop.simps)
qed

theorem getReadData_throws_witness:
  "index ((ILC_new 1)\<lparr>buffer := [0x1222, 0x1224, 0x1200], index := 2\<rparr>) < 2 ^ 64 \<and>
   fst (getReadData ILC_class 1 ((ILC_new 1)\<lparr>buffer := [0x1222, 0x1224, 0x1200], index := 2\<rparr>))
     = Inl EndOfBuffer \<and>
   getReadData ILC_class 0 ((ILC_new 1)\<lparr>buffer := [0x1222, 0x1224, 0x1200], index := 2\<rparr>)
     = (Inr [], (ILC_new 1)\<lparr>buffer := [0x1222, 0x1224, 0x1200], index := 2\<rparr>)"
  using getReadData_throws
    [of "(ILC_new 1)\<lparr>buffer := [0x1222, 0x1224, 0x1200], index := 2\<rparr>" 1 ILC_class]
  by simp

section \<open>Instances of the theorems above\<close>

theorem CRC_is_modbus_crc16_witness:
  "modbus_crc16 (map unat (map (of_nat \<circ> of_char) ''123456789'' :: u8 list)) = 0x4B37"
  using CRC_is_modbus_crc16 [of "map (of_nat \<circ> of_char) ''123456789''" "\<lparr>crcCounter = 0\<rparr>" "ILC_new 1"]
    CRC_check_value [of "\<lparr>crcCounter = 0\<rparr>"]
  by simp

theorem checkCommanded_pops_front_witness:
  "checkCommanded 8 18 ((ILC_new 1)\<lparr>commanded := []\<rparr>)
     = (Inl (UnmatchedFunction 8 18), (ILC_new 1)\<lparr>commanded := []\<rparr>) \<and>
   checkCommanded 8 18 ((ILC_new 1)\<lparr>commanded := [(8, 18), (9, 18)]\<rparr>)
     = (Inr (), (ILC_new 1)\<lparr>commanded := [(9, 18)]\<rparr>) \<and>
   checkCommanded 9 18 ((ILC_new 1)\<lparr>commanded := [(8, 18), (9, 18)]\<rparr>)
     = (Inl (UnmatchedFunctionExpected 9 18 8 18), (ILC_new 1)\<lparr>commanded := [(9, 18)]\<rparr>)"
  using checkCommanded_pops_front [of 8 18 "(ILC_new 1)\<lparr>commanded := []\<rparr>"]
    checkCommanded_pops_front [of 8 18 "(ILC_new 1)\<lparr>commanded := [(8, 18), (9, 18)]\<rparr>"]
    checkCommanded_pops_front [of 9 18 "(ILC_new 1)\<lparr>commanded := [(8, 18), (9, 18)]\<rparr>"]
  by simp

theorem checkRecording_swaps_witness:
  "checkRecording [1, 2] ((ILC_new 1)\<lparr>recordChanges := True, records := [1, 2, 3]\<rparr>)
     = ((False, [1, 2, 3]), (ILC_new 1)\<lparr>recordChanges := False, records := []\<rparr>) \<and>
   checkRecording [1, 2, 3] ((ILC_new 1)\<lparr>recordChanges := True, records := [1, 2, 3]\<rparr>)
     = ((True, [1, 2, 3]), (ILC_new 1)\<lparr>recordChanges := False, records := []\<rparr>)"
  using checkRecording_swaps [of "[1, 2]" "(ILC_new 1)\<lparr>recordChanges := True, records := [1, 2, 3]\<rparr>"]
    checkRecording_swaps [of "[1, 2, 3]" "(ILC_new 1)\<lparr>recordChanges := True, records := [1, 2, 3]\<rparr>"]
  by simp

section \<open>Which requests enter the ledger\<close>

lemma commanded_accum [simp]: "commanded (s\<lparr>buffer := b\<rparr>) = commanded s"
  by simp

lemma commanded_writeBuffer [simp]: "commanded (writeBuffer c ds s) = commanded s"
  by (simp add: writeBuffer_eq)

lemma commanded_write_dt [simp]: "commanded (write_dt c v s) = commanded s"
  by (cases v)
     (simp_all add: write_int8_def write_uint8_def write_int16_def write_uint16_def
       write_int32_def write_uint32_def write_uint64_def write_float_def writeI24_def
       getByteInstruction_eq pushBuffer_def processDataCRC_def Let_def)

lemma commanded_write_uint8 [simp]: "commanded (write_uint8 c v s) = commanded s"
  by (simp only: write_uint8_def commanded_writeBuffer)

lemma commanded_fold_write_dt [simp]: "commanded (fold (write_dt c) ps s) = commanded s"
  by (induction ps arbitrary: s) simp_all

lemma commanded_writeCRC [simp]: "commanded (writeCRC c s) = commanded s"
  by (simp add: writeCRC_def getByteInstruction_eq pushBuffer_def processDataCRC_def Let_def)

lemma commanded_framing [simp]:
  "commanded (ILC_writeEndOfFrame s) = commanded s"
  "commanded (ILC_writeWaitForRx t s) = commanded s"
  by (simp_all add: ILC_writeEndOfFrame_def ILC_writeWaitForRx_def pushBuffer_def)

lemma unicast_range:
  "((a :: u8) > 0 \<and> a < 248 \<or> a = 255) \<longleftrightarrow> (1 \<le> unat a \<and> unat a \<le> 247 \<or> unat a = 255)"
proof -
  have "a > 0 \<longleftrightarrow> 1 \<le> unat a" by (simp add: word_less_nat_alt Suc_le_eq)
  moreover have "a < 248 \<longleftrightarrow> unat a \<le> 247" by (simp add: word_less_nat_alt) arith
  moreover have "a = 255 \<longleftrightarrow> unat a = 255" by (simp add: word_unat_eq_iff)
  ultimately show ?thesis by simp
qed

lemma commanded_callFunction:
  "commanded (callFunction a f t ps s) =
     (if (a > 0 \<and> a < 248) \<or> a = 255 then commanded s @ [(a, f)] else commanded s)"
  unfolding callFunction_def Let_def pushCommanded_def by simp

text \<open>
  Claim C1, as amended.  \<open>pushCommanded(a, f)\<close>, and with it \<open>callFunction\<close> with any
  timeout and parameters, appends \<open>(a, f)\<close> to the ledger exactly when \<open>1 \<le> a \<le> 247\<close> or
  \<open>a = 255\<close>, and leaves the ledger as it is for every other address: \<open>0\<close> and
  \<open>248..254\<close>, \<open>250\<close> among them, are never enqueued.
\<close>

theorem pushCommanded_enqueues:
  "commanded (pushCommanded a f s) =
     (if 1 \<le> unat a \<and> unat a \<le> 247 \<or> unat a = 255 then commanded s @ [(a, f)] else commanded s) \<and>
   commanded (callFunction a f t ps s) =
     (if 1 \<le> unat a \<and> unat a \<le> 247 \<or> unat a = 255 then commanded s @ [(a, f)] else commanded s)"
  unfolding callFunction_def Let_def pushCommanded_def unicast_range
  by simp

theorem pushCommanded_enqueues_witness:
  "commanded (pushCommanded 0 18 (ILC_new 1)) = [] \<and>
   commanded (pushCommanded 250 18 (ILC_new 1)) = [] \<and>
   commanded (pushCommanded 255 18 (ILC_new 1)) = [(255, 18)] \<and>
   commanded (callFunction 8 18 335 [] (ILC_new 1)) = [(8, 18)]"
  using pushCommanded_enqueues [of 0 18 "ILC_new 1"] pushCommanded_enqueues [of 250 18 "ILC_new 1"]
    pushCommanded_enqueues [of 255 18 "ILC_new 1"] pushCommanded_enqueues [of 8 18 "ILC_new 1" 335 "[]"]
  by (simp add: ILC_new_def)

text \<open>
  The claim as stated also keeps \<open>148\<close> and \<open>149\<close> off the ledger; they lie in
  \<open>1..247\<close> and are enqueued.
\<close>

theorem pushCommanded_148_counterexample:
  "commanded (pushCommanded 148 18 (ILC_new 1)) = [(148, 18)] \<and>
   commanded (callFunction 149 18 335 [] (ILC_new 1)) = [(149, 18)]"
  by code_simp

section \<open>Delays and wait-for-Rx timeouts\<close>

lemma x0FFF_mask: "(0x0FFF :: 'a::len word) = mask 12"
  by (simp add: mask_eq_exp_minus_1)

lemma xF000_mask: "(0xF000 :: u16) = NOT (mask 12)"
  by (simp add: mask_eq_exp_minus_1)

lemma class_bits:
  fixes k :: u16
  assumes "k AND 0x0FFF = 0"
  shows "bit k n \<Longrightarrow> n < 12 \<Longrightarrow> False"
proof -
  assume "bit k n" and "n < 12"
  then have "bit (k AND mask 12) n" by (simp add: bit_and_iff bit_mask_iff)
  with assms show False by (simp add: x0FFF_mask)
qed

lemma class_of_word:
  fixes x k :: u16
  assumes "k AND 0x0FFF = 0"
  shows "((x AND 0x0FFF) OR k) AND 0xF000 = k"
  unfolding x0FFF_mask xF000_mask
  by (rule bit_word_eqI) (auto simp: bit_and_iff bit_or_iff bit_not_iff bit_mask_iff dest: class_bits [OF assms])

lemma value_of_word:
  fixes x k :: u16
  assumes "k AND 0x0FFF = 0"
  shows "0x0FFF AND ((x AND 0x0FFF) OR k) = x AND 0x0FFF"
  unfolding x0FFF_mask
  by (rule bit_word_eqI) (auto simp: bit_and_iff bit_or_iff bit_mask_iff dest: class_bits [OF assms])


lemma narrow_long:
  fixes y :: u32 and k :: u16
  shows "(ucast ((0x0FFF AND y) OR ucast k) :: u16) = (ucast y AND 0x0FFF) OR k"
  unfolding x0FFF_mask
  by (rule bit_word_eqI) (auto simp: bit_and_iff bit_or_iff bit_mask_iff bit_ucast_iff)

lemma le_0FFF_mask:
  fixes t :: u32
  assumes "t \<le> 0x0FFF"
  shows "0x0FFF AND t = t"
proof -
  from assms have "t AND mask 12 = t"
    by (intro less_mask_eq) (simp add: word_le_nat_alt word_less_nat_alt)
  then show ?thesis by (simp add: x0FFF_mask and.commute)
qed

lemma narrow_short:
  fixes t :: u32 and k :: u16
  assumes "t \<le> 0x0FFF"
  shows "(ucast (t OR ucast k) :: u16) = (ucast t AND 0x0FFF) OR k"
  using narrow_long [of t k] by (simp only: le_0FFF_mask [OF assms])

lemma widen_value:
  fixes y :: u32
  shows "(ucast ((ucast y :: u16) AND 0x0FFF) :: u32) = y AND 0x0FFF"
  unfolding x0FFF_mask
  by (rule bit_word_eqI) (auto simp: bit_and_iff bit_mask_iff bit_ucast_iff)

lemma long_value_unat:
  fixes t :: u32
  shows "unat (((t div 1000 + 1) AND 0x0FFF) * 1000) = ((unat t div 1000 + 1) mod 4096) * 1000"
proof -
  have "unat t < 2 ^ 32" using unsigned_less [of t, where ?'a = nat] by simp
  then have q: "unat t div 1000 + 1 < 2 ^ 32" by simp
  have "unat (t div 1000) = unat t div 1000" by (simp add: unat_div)
  with q have a: "unat (t div 1000 + 1) = unat t div 1000 + 1"
    using unat_add_lem [of "t div 1000" 1] by simp
  have b: "unat ((t div 1000 + 1) AND 0x0FFF) = (unat t div 1000 + 1) mod 4096"
    unfolding x0FFF_mask
    by (simp add: a unat_mod take_bit_eq_mod flip: take_bit_eq_mask)
  have "(unat t div 1000 + 1) mod 4096 < 4096" by simp
  then have "(unat t div 1000 + 1) mod 4096 * 1000 < 2 ^ 32" by simp
  with b show ?thesis
    using unat_mult_lem [of "(t div 1000 + 1) AND 0x0FFF" 1000] by simp
qed


lemma duration_word_short:
  fixes t :: u32 and S :: u16
  assumes "t \<le> 0x0FFF" and "S AND 0x0FFF = 0"
  shows "ucast (t OR ucast S) AND 0xF000 = S"
    and "(ucast (0x0FFF AND (ucast (t OR ucast S) :: u16)) :: u32) = t"
proof -
  have w: "(ucast (t OR ucast S) :: u16) = (ucast t AND 0x0FFF) OR S"
    by (rule narrow_short [OF assms(1)])
  show "ucast (t OR ucast S) AND 0xF000 = S"
    unfolding w by (rule class_of_word [OF assms(2)])
  have "(ucast (0x0FFF AND (ucast (t OR ucast S) :: u16)) :: u32) = t AND 0x0FFF"
    unfolding w value_of_word [OF assms(2)] by (rule widen_value)
  with le_0FFF_mask [OF assms(1)] show "(ucast (0x0FFF AND (ucast (t OR ucast S) :: u16)) :: u32) = t"
    by (simp add: and.commute)
qed

lemma duration_word_long:
  fixes y :: u32 and L :: u16
  assumes "L AND 0x0FFF = 0"
  shows "ucast ((0x0FFF AND y) OR ucast L) AND 0xF000 = L"
    and "(ucast (0x0FFF AND (ucast ((0x0FFF AND y) OR ucast L) :: u16)) :: u32) = y AND 0x0FFF"
proof -
  have w: "(ucast ((0x0FFF AND y) OR ucast L) :: u16) = (ucast y AND 0x0FFF) OR L"
    by (rule narrow_long)
  show "ucast ((0x0FFF AND y) OR ucast L) AND 0xF000 = L"
    unfolding w by (rule class_of_word [OF assms])
  show "(ucast (0x0FFF AND (ucast ((0x0FFF AND y) OR ucast L) :: u16)) :: u32) = y AND 0x0FFF"
    unfolding w value_of_word [OF assms] by (rule widen_value)
qed

lemma class_consts:
  "DELAY AND 0x0FFF = 0" "LONG_DELAY AND 0x0FFF = 0"
  "TX_WAIT_RX AND 0x0FFF = 0" "TX_WAIT_LONG_RX AND 0x0FFF = 0"
  "LONG_DELAY \<noteq> DELAY" "TX_WAIT_LONG_RX \<noteq> TX_WAIT_RX"
  by (simp_all add: DELAY_def LONG_DELAY_def TX_WAIT_RX_def TX_WAIT_LONG_RX_def)

lemma readDelay_writeDelay:
  assumes "index s = length (buffer s)"
  shows "fst (readDelay (writeDelay t s)) =
           Inr (if t \<le> 0x0FFF then t else ((t div 1000 + 1) AND 0x0FFF) * 1000)"
proof (cases "t \<le> 0x0FFF")
  case True
  then have "\<not> t > 0x0FFF" by simp
  with True assms show ?thesis
    by (simp add: readDelay_def writeDelay_def pushBuffer_def Let_def returnE_def throwE_def
        duration_word_short [OF True class_consts(1)])
next
  case False
  then have "t > 0x0FFF" by simp
  with False assms show ?thesis
    by (simp add: readDelay_def writeDelay_def pushBuffer_def Let_def returnE_def throwE_def
        duration_word_long [OF class_consts(2)] class_consts)
qed

lemma readWaitForRx_writeWaitForRx:
  assumes "index s = length (buffer s)"
  shows "fst (ILC_readWaitForRx (ILC_writeWaitForRx t s)) =
           Inr (if t \<le> 0x0FFF then t else ((t div 1000 + 1) AND 0x0FFF) * 1000)"
proof (cases "t \<le> 0x0FFF")
  case True
  then have "\<not> t > 0x0FFF" by simp
  with True assms show ?thesis
    by (simp add: ILC_readWaitForRx_def ILC_writeWaitForRx_def pushBuffer_def Let_def returnE_def throwE_def
        duration_word_short [OF True class_consts(3)])
next
  case False
  then have "t > 0x0FFF" by simp
  with False assms show ?thesis
    by (simp add: ILC_readWaitForRx_def ILC_writeWaitForRx_def pushBuffer_def Let_def returnE_def throwE_def
        duration_word_long [OF class_consts(4)] class_consts)
qed

lemma readback_unat:
  fixes t :: u32
  shows "unat (if t \<le> 0x0FFF then t else ((t div 1000 + 1) AND 0x0FFF) * 1000) =
     (if unat t \<le> 4095 then unat t else ((unat t div 1000 + 1) mod 4096) * 1000)"
  by (simp add: long_value_unat word_le_nat_alt)

lemma long_readback_arith:
  fixes n :: nat
  assumes "4095 < n"
  shows "((n div 1000 + 1) mod 4096) * 1000 \<noteq> n"
    and "n < 4095000 \<Longrightarrow> ((n div 1000 + 1) mod 4096) * 1000 = (n div 1000 + 1) * 1000"
proof -
  define q where "q = n div 1000"
  define r where "r = (q + 1) mod 4096"
  have "r * 1000 \<noteq> n"
  proof
    assume e: "r * 1000 = n"
    have "(r * 1000) div 1000 = r" by simp
    with e have qr: "q = r" by (simp only: q_def)
    have "r < 4096" by (simp add: r_def)
    show False
    proof (cases "q = 4095")
      case True
      with qr show False by (simp add: r_def)
    next
      case False
      with qr \<open>r < 4096\<close> have "q + 1 < 4096" by simp
      then have "r = q + 1" by (simp add: r_def)
      with qr show False by simp
    qed
  qed
  then show "((n div 1000 + 1) mod 4096) * 1000 \<noteq> n"
    by (simp add: r_def q_def)
  assume "n < 4095000"
  then have "n div 1000 + 1 < 4096" by simp
  then show "((n div 1000 + 1) mod 4096) * 1000 = (n div 1000 + 1) * 1000" by simp
qed

text \<open>
  Claim C9, as amended.  With the cursor at the end of the buffer, \<open>writeDelay(t)\<close> followed
  by \<open>readDelay()\<close>, and \<open>writeWaitForRx(t)\<close> followed by \<open>readWaitForRx()\<close>, return
  \<open>t\<close> for \<open>t \<le> 0x0FFF\<close>, \<open>((t / 1000) + 1) * 1000\<close> for \<open>0x0FFF < t < 4095000\<close>, and
  \<open>(((t / 1000) + 1) mod 4096) * 1000\<close> beyond, where the 12-bit field wraps; for every
  \<open>t > 0x0FFF\<close> the value returned differs from \<open>t\<close>.
\<close>

theorem duration_roundtrip:
  assumes "index s = length (buffer s)"
  shows "map_sum id unat (fst (readDelay (writeDelay t s))) =
           Inr (if unat t \<le> 4095 then unat t
                else if unat t < 4095000 then (unat t div 1000 + 1) * 1000
                else ((unat t div 1000 + 1) mod 4096) * 1000) \<and>
         map_sum id unat (fst (ILC_readWaitForRx (ILC_writeWaitForRx t s))) =
           Inr (if unat t \<le> 4095 then unat t
                else if unat t < 4095000 then (unat t div 1000 + 1) * 1000
                else ((unat t div 1000 + 1) mod 4096) * 1000) \<and>
         (4095 < unat t \<longrightarrow>
            map_sum id unat (fst (readDelay (writeDelay t s))) \<noteq> Inr (unat t) \<and>
            map_sum id unat (fst (ILC_readWaitForRx (ILC_writeWaitForRx t s))) \<noteq> Inr (unat t))"
  using long_readback_arith [of "unat t"]
  by (simp add: readDelay_writeDelay [OF assms] readWaitForRx_writeWaitForRx [OF assms] readback_unat)

lemmas duration_defs =
  readDelay_def writeDelay_def ILC_readWaitForRx_def ILC_writeWaitForRx_def pushBuffer_def
  ILC_new_def LONG_DELAY_def DELAY_def TX_WAIT_RX_def TX_WAIT_LONG_RX_def returnE_def throwE_def
  Let_def

theorem duration_roundtrip_witness:
  "index (ILC_new 1) = length (buffer (ILC_new 1)) \<and>
   fst (readDelay (writeDelay 335 (ILC_new 1))) = Inr 335 \<and>
   fst (ILC_readWaitForRx (ILC_writeWaitForRx 36500 (ILC_new 1))) = Inr 37000 \<and>
   map_sum id unat (fst (readDelay (writeDelay 36500 (ILC_new 1)))) = Inr 37000"
  using duration_roundtrip [of "ILC_new 1" 36500]
  by (simp add: duration_defs)

text \<open>
  The claim as stated gives \<open>((t / 1000) + 1) * 1000\<close> for every \<open>t > 0x0FFF\<close>; at
  \<open>t = 4095000\<close> that is \<open>4096000\<close>, and the code returns \<open>0\<close>.
\<close>

theorem duration_roundtrip_counterexample:
  "fst (readDelay (writeDelay 4095000 (ILC_new 1))) = Inr 0 \<and>
   fst (ILC_readWaitForRx (ILC_writeWaitForRx 4095000 (ILC_new 1))) = Inr 0"
  by (simp add: duration_defs)

section \<open>The timeout of \<open>changeILCMode\<close>\<close>

lemma buffer_writeBuffer [simp]: "buffer (writeBuffer c ds s) = buffer s @ map (enc c) ds"
  by (simp add: writeBuffer_eq)

lemma writeCRC_eq:
  "writeCRC c s =
     (accum [ucast (getCalcCrc s AND 0xFF), ucast (drop_bit 8 (getCalcCrc s) AND 0xFF)]
        (s\<lparr>buffer := buffer s @ [enc c (ucast (getCalcCrc s AND 0xFF)),
                                    enc c (ucast (drop_bit 8 (getCalcCrc s) AND 0xFF))]\<rparr>))
     \<lparr>crc := CRC_reset (fold CRC_add [ucast (getCalcCrc s AND 0xFF), ucast (drop_bit 8 (getCalcCrc s) AND 0xFF)] (crc s))\<rparr>"
  by (simp add: writeCRC_def getByteInstruction_eq pushBuffer_def Let_def accum_def processDataCRC_def)

lemma buffer_writeCRC:
  "buffer (writeCRC c s) =
     buffer s @ [enc c (ucast (getCalcCrc s AND 0xFF)), enc c (ucast (drop_bit 8 (getCalcCrc s) AND 0xFF))]"
  by (simp add: writeCRC_eq)

lemma length_buffer_writeCRC [simp]: "length (buffer (writeCRC c s)) = length (buffer s) + 2"
  by (simp add: buffer_writeCRC)

lemma take_buffer_writeCRC [simp]:
  "n \<le> length (buffer s) \<Longrightarrow> take n (buffer (writeCRC c s)) = take n (buffer s)"
  by (simp add: buffer_writeCRC)

lemma buffer_write_uint8 [simp]: "buffer (write_uint8 c v s) = buffer s @ [enc c v]"
  by (simp add: write_uint8_def writeBuffer_eq)

lemma buffer_write_uint16 [simp]:
  "buffer (write_uint16 c v s) = buffer s @ map (enc c) (rev (host_bytes 2 v))"
  by (simp only: write_uint16_def hton_bytes buffer_writeBuffer)

lemma wait_word_values:
  "(ucast (if (100000 :: u32) > 0x0FFF then (0x0FFF AND ((100000 :: u32) div 1000 + 1)) OR ucast TX_WAIT_LONG_RX
          else 100000 OR ucast TX_WAIT_RX) :: u16) = TX_WAIT_LONG_RX OR 101"
  "(ucast (if (335 :: u32) > 0x0FFF then (0x0FFF AND ((335 :: u32) div 1000 + 1)) OR ucast TX_WAIT_LONG_RX
          else 335 OR ucast TX_WAIT_RX) :: u16) = TX_WAIT_RX OR 335"
  by (simp_all add: TX_WAIT_LONG_RX_def TX_WAIT_RX_def)

lemma wait_word_fields:
  "(TX_WAIT_LONG_RX OR 101) AND 0x0FFF = 101"
  "(TX_WAIT_LONG_RX OR 101) AND 0xF000 = TX_WAIT_LONG_RX"
  "(TX_WAIT_RX OR 335) AND 0x0FFF = 335"
  "(TX_WAIT_RX OR 335) AND 0xF000 = TX_WAIT_RX"
  by (simp_all add: TX_WAIT_LONG_RX_def TX_WAIT_RX_def)

lemma buffer_callFunction_mode:
  "\<exists>F. length F = 6 \<and>
     buffer (callFunction a f t [VUInt16 m] s) =
       buffer s @ F @
       [TX_FRAMEEND,
        ucast (if t > 0x0FFF then (0x0FFF AND (t div 1000 + 1)) OR ucast TX_WAIT_LONG_RX
               else t OR ucast TX_WAIT_RX)]"
proof -
  let ?s3 = "write_uint16 ILC_class m (write_uint8 ILC_class f (write_uint8 ILC_class a s))"
  let ?F = "[enc ILC_class a, enc ILC_class f] @ map (enc ILC_class) (rev (host_bytes 2 m)) @
     [enc ILC_class (ucast (getCalcCrc ?s3 AND 0xFF)),
      enc ILC_class (ucast (drop_bit 8 (getCalcCrc ?s3) AND 0xFF))]"
  have "length ?F = 6" by simp
  moreover have "buffer (callFunction a f t [VUInt16 m] s) =
       buffer s @ ?F @
       [TX_FRAMEEND,
        ucast (if t > 0x0FFF then (0x0FFF AND (t div 1000 + 1)) OR ucast TX_WAIT_LONG_RX
               else t OR ucast TX_WAIT_RX)]"
    by (simp add: callFunction_def pushCommanded_def ILC_writeEndOfFrame_def
        ILC_writeWaitForRx_def pushBuffer_def buffer_writeCRC Let_def)
  ultimately show ?thesis by blast
qed

lemma changeILCMode_timeout:
  "changeILCMode a m s =
     callFunction a 65
       (if (lastMode s a = Some Standby \<and> m = ucast FirmwareUpdate) \<or>
           (lastMode s a = Some FirmwareUpdate \<and> m = ucast Standby)
        then 100000 else 335) [VUInt16 m] s"
  by (cases "lastMode s a")
     (simp_all add: changeILCMode_def getLastMode_def throwE_def returnE_def)

text \<open>
  Claim C6.  \<open>changeILCMode(a, m)\<close> appends eight words to the buffer, the last of which
  is the \<open>TX_WAIT_LONG_RX\<close> word with low 12 bits \<open>101\<close> exactly when the recorded last
  mode of \<open>a\<close> and \<open>m\<close> are \<open>Standby\<close> and \<open>FirmwareUpdate\<close> in either order, and the
  \<open>TX_WAIT_RX\<close> word with value \<open>335\<close> in every other case, also when no mode is recorded.
\<close>

theorem changeILCMode_wait_word:
  "last (buffer (changeILCMode a m s)) =
     (if (lastMode s a = Some Standby \<and> m = ucast FirmwareUpdate) \<or>
         (lastMode s a = Some FirmwareUpdate \<and> m = ucast Standby)
      then TX_WAIT_LONG_RX OR 101 else TX_WAIT_RX OR 335) \<and>
   length (buffer (changeILCMode a m s)) = length (buffer s) + 8 \<and>
   take (length (buffer s)) (buffer (changeILCMode a m s)) = buffer s \<and>
   (TX_WAIT_LONG_RX OR 101) AND 0x0FFF = 101 \<and>
   (TX_WAIT_LONG_RX OR 101) AND 0xF000 = TX_WAIT_LONG_RX \<and>
   (TX_WAIT_RX OR 335) AND 0x0FFF = 335 \<and>
   (TX_WAIT_RX OR 335) AND 0xF000 = TX_WAIT_RX"
proof (cases "(lastMode s a = Some Standby \<and> m = ucast FirmwareUpdate) \<or>
         (lastMode s a = Some FirmwareUpdate \<and> m = ucast Standby)")
  case True
  then have c: "changeILCMode a m s = callFunction a 65 100000 [VUInt16 m] s"
    by (simp only: changeILCMode_timeout if_True)
  from buffer_callFunction_mode [of a 65 100000 m s] obtain F where
    "length F = 6" "buffer (changeILCMode a m s) = buffer s @ F @ [TX_FRAMEEND, TX_WAIT_LONG_RX OR 101]"
    unfolding c wait_word_values by blast
  with True show ?thesis by (simp add: wait_word_fields)
next
  case False
  then have c: "changeILCMode a m s = callFunction a 65 335 [VUInt16 m] s"
    by (simp only: changeILCMode_timeout if_False)
  from buffer_callFunction_mode [of a 65 335 m s] obtain F where
    "length F = 6" "buffer (changeILCMode a m s) = buffer s @ F @ [TX_FRAMEEND, TX_WAIT_RX OR 335]"
    unfolding c wait_word_values by blast
  with False show ?thesis by (auto simp: wait_word_fields)
qed


theorem changeILCMode_wait_word_witness:
  "last (buffer (changeILCMode 8 3 ((ILC_new 1)\<lparr>lastMode := [8 \<mapsto> Standby]\<rparr>))) = 0x9065 \<and>
   last (buffer (changeILCMode 8 0 ((ILC_new 1)\<lparr>lastMode := [8 \<mapsto> FirmwareUpdate]\<rparr>))) = 0x9065 \<and>
   last (buffer (changeILCMode 8 3 ((ILC_new 1)\<lparr>lastMode := [8 \<mapsto> Disabled]\<rparr>))) = 0x614F \<and>
   last (buffer (changeILCMode 8 3 (ILC_new 1))) = 0x614F"
  using changeILCMode_wait_word [of 8 3 "(ILC_new 1)\<lparr>lastMode := [8 \<mapsto> Standby]\<rparr>"]
    changeILCMode_wait_word [of 8 0 "(ILC_new 1)\<lparr>lastMode := [8 \<mapsto> FirmwareUpdate]\<rparr>"]
    changeILCMode_wait_word [of 8 3 "(ILC_new 1)\<lparr>lastMode := [8 \<mapsto> Disabled]\<rparr>"]
    changeILCMode_wait_word [of 8 3 "ILC_new 1"]
  by (simp add: ILC_new_def Standby_def FirmwareUpdate_def Disabled_def TX_WAIT_LONG_RX_def
      TX_WAIT_RX_def)

section \<open>The CRC round trip\<close>

lemma bindE_Inr: "m s = (Inr x, s') \<Longrightarrow> bindE m f s = f x s'"
  by (simp add: bindE_def)

lemma host_word_byte [simp]: "host_word [x] = (x :: u8)"
  by simp

lemma read_uint8_eq:
  "index s < length (buffer s) \<Longrightarrow>
   read_uint8 c s =
     (Inr (dec c (buffer s ! index s)),
      accum [dec c (buffer s ! index s)] (s\<lparr>index := Suc (index s)\<rparr>))"
proof -
  assume a: "index s < length (buffer s)"
  then have "index s + 1 \<le> length (buffer s)" by simp
  from readBuffer_eq [OF this, of c] a show ?thesis
    by (simp add: read_uint8_def bindE_def returnE_def take_Suc_conv_app_nth
        Cons_nth_drop_Suc [symmetric] del: readBuffer.simps)
qed

lemma low_byte_mask: "(ucast (k AND 0xFF) :: u8) = ucast (k :: u16)"
proof (rule bit_word_eqI)
  fix n
  assume "n < LENGTH(8)"
  then have n: "n < 8" by simp
  from low_byte_bits(1) [OF n] n show "bit (ucast (k AND 0xFF) :: u8) n = bit (ucast k :: u8) n"
    by (simp add: bit_ucast_iff bit_and_iff)
qed

lemma crc_bytes: "host_word [ucast (k AND 0xFF), ucast (drop_bit 8 k AND 0xFF)] = (k :: u16)"
proof -
  have "[ucast (k AND 0xFF), ucast (drop_bit 8 k AND 0xFF)] = host_bytes 2 k"
    by (simp add: low_byte_mask numeral_2_eq_2)
  then show ?thesis by (simp only: host_word_host_bytes [of 2 k, simplified])
qed

lemma checkCRC_ok:
  assumes "index s + 2 \<le> length (buffer s)"
    and "host_word (map (dec c) (take 2 (drop (index s) (buffer s)))) = getCalcCrc s"
  shows "fst (checkCRC c s) = Inr ()"
    and "snd (checkCRC c s) =
           (accum (map (dec c) (take 2 (drop (index s) (buffer s))))
              (s\<lparr>recordChanges := False, index := index s + 2\<rparr>))
           \<lparr>crc := CRC_reset (fold CRC_add (map (dec c) (take 2 (drop (index s) (buffer s)))) (crc s))\<rparr>"
proof -
  let ?s1 = "s\<lparr>recordChanges := False\<rparr>"
  from assms(1) have "index ?s1 + 2 \<le> length (buffer ?s1)" by simp
  note rb = readBuffer_eq [OF this, of c]
  from assms(2) rb show "fst (checkCRC c s) = Inr ()"
    by (simp add: checkCRC_def bindE_def getE_def liftE_def Let_def throwE_def)
  from assms(2) rb show "snd (checkCRC c s) =
           (accum (map (dec c) (take 2 (drop (index s) (buffer s))))
              (s\<lparr>recordChanges := False, index := index s + 2\<rparr>))
           \<lparr>crc := CRC_reset (fold CRC_add (map (dec c) (take 2 (drop (index s) (buffer s)))) (crc s))\<rparr>"
    by (simp add: checkCRC_def bindE_def getE_def liftE_def Let_def throwE_def accum_def)
qed


lemma CRC_frame_buffer:
  "buffer (writeCRC c (writeBuffer c args (write_uint8 c f (write_uint8 c a (clear b s))))) =
     map (enc c) (a # f # args @
       [ucast (crcCounter (fold CRC_add (a # f # args) (CRC_reset (crc s))) AND 0xFF),
        ucast (drop_bit 8 (crcCounter (fold CRC_add (a # f # args) (CRC_reset (crc s)))) AND 0xFF)])"
  by (simp add: writeCRC_eq writeBuffer_eq write_uint8_def getCalcCrc_def CRC_get_def)

text \<open>
  Claim C2.  For every address byte, function byte and sequence of argument bytes: after
  a cleared buffer is written with the address, the function, the arguments and
  \<open>writeCRC\<close>, then \<open>reset\<close>, reading the address, the function and the arguments back
  and calling \<open>checkCRC\<close> throws nothing and returns the bytes written, with the base byte
  encoding and with the one of \<open>ILC\<close>.
\<close>

theorem CRC_roundtrip:
  "fst (bindE (read_uint8 c) (\<lambda>a'.
        bindE (read_uint8 c) (\<lambda>f'.
        bindE (readBuffer c (length args)) (\<lambda>args'.
        bindE (checkCRC c) (\<lambda>u. returnE (a', f', args')))))
        (reset (writeCRC c (writeBuffer c args
           (write_uint8 c f (write_uint8 c a (clear b s)))))))
   = Inr (a, f, args)"
proof -
  define K where "K = crcCounter (fold CRC_add (a # f # args) (CRC_reset (crc s)))"
  define lo :: u8 where "lo = ucast (K AND 0xFF)"
  define hi :: u8 where "hi = ucast (drop_bit 8 K AND 0xFF)"
  define B where "B = map (enc c) (a # f # args @ [lo, hi])"
  define R0 where "R0 = reset (writeCRC c (writeBuffer c args
           (write_uint8 c f (write_uint8 c a (clear b s)))))"
  have B: "buffer R0 = B"
    by (simp only: R0_def reset_sel CRC_frame_buffer B_def lo_def hi_def K_def)
  have lenB: "length B = length args + 4" by (simp add: B_def)
  have R0: "index R0 = 0" "crc R0 = CRC_reset (crc s)" "recordChanges R0 = False"
    by (simp_all add: R0_def writeCRC_eq CRC_reset_def)
  define R1 where "R1 = accum [a] (R0\<lparr>index := Suc 0\<rparr>)"
  have r1: "read_uint8 c R0 = (Inr a, R1)"
    using read_uint8_eq [of R0 c] by (simp add: B R0 lenB R1_def) (simp add: B_def)
  have R1: "buffer R1 = B" "index R1 = 1" "crc R1 = fold CRC_add [a] (CRC_reset (crc s))"
    "recordChanges R1 = False"
    by (simp_all add: R1_def B R0)
  define R2 where "R2 = accum [f] (R1\<lparr>index := Suc (Suc 0)\<rparr>)"
  have r2: "read_uint8 c R1 = (Inr f, R2)"
    using read_uint8_eq [of R1 c] by (simp add: R1 lenB R2_def) (simp add: B_def)
  have R2: "buffer R2 = B" "index R2 = 2" "crc R2 = fold CRC_add [a, f] (CRC_reset (crc s))"
    "recordChanges R2 = False"
    by (simp_all add: R2_def R1)
  define R3 where "R3 = accum args (R2\<lparr>index := 2 + length args\<rparr>)"
  have r3: "readBuffer c (length args) R2 = (Inr args, R3)"
    using readBuffer_eq [of R2 "length args" c] by (simp add: R2 lenB R3_def) (simp add: B_def)
  have R3: "buffer R3 = B" "index R3 = length args + 2"
    "crc R3 = fold CRC_add (a # f # args) (CRC_reset (crc s))"
    by (simp_all add: R3_def R2)
  have "map (dec c) (take 2 (drop (index R3) (buffer R3))) = [lo, hi]"
    by (simp add: R3 B_def)
  moreover have "getCalcCrc R3 = K"
    by (simp add: getCalcCrc_def CRC_get_def R3 K_def)
  ultimately have "fst (checkCRC c R3) = Inr ()"
    using checkCRC_ok(1) [of R3 c] crc_bytes [of K] by (simp add: R3 lenB lo_def hi_def)
  then obtain R4 where r4: "checkCRC c R3 = (Inr (), R4)"
    by (cases "checkCRC c R3") simp
  show ?thesis
    unfolding R0_def [symmetric]
    by (simp add: bindE_Inr [of "read_uint8 c" R0 a R1, OF r1]
        bindE_Inr [of "read_uint8 c" R1 f R2, OF r2]
        bindE_Inr [of "readBuffer c (length args)" R2 args R3, OF r3]
        bindE_Inr [of "checkCRC c" R3 "()" R4, OF r4] returnE_def)
qed

theorem CRC_roundtrip_witness:
  "fst (bindE (read_uint8 ILC_class) (\<lambda>a'.
        bindE (read_uint8 ILC_class) (\<lambda>f'.
        bindE (readBuffer ILC_class (length [0 :: u8, 3])) (\<lambda>args'.
        bindE (checkCRC ILC_class) (\<lambda>u. returnE (a', f', args')))))
        (reset (writeCRC ILC_class (writeBuffer ILC_class [0, 3]
           (write_uint8 ILC_class 65 (write_uint8 ILC_class 8 (clear False (ILC_new 1))))))))
   = Inr (8, 65, [0, 3])"
  by (rule CRC_roundtrip)

section \<open>Change gating of the status response\<close>

declare enc.simps [simp del] dec.simps [simp del]

lemma read_uint16_eq:
  "index s + 2 \<le> length (buffer s) \<Longrightarrow>
   read_uint16 c s =
     (Inr (ntohs (host_word (map (dec c) (take 2 (drop (index s) (buffer s)))))),
      accum (map (dec c) (take 2 (drop (index s) (buffer s)))) (s\<lparr>index := index s + 2\<rparr>))"
  by (simp add: read_uint16_def bindE_def returnE_def readBuffer_eq)

lemma checkCRC_eq:
  assumes "index s + 2 \<le> length (buffer s)"
    and "host_word (map (dec c) (take 2 (drop (index s) (buffer s)))) = getCalcCrc s"
  shows "checkCRC c s =
      (Inr (), (accum (map (dec c) (take 2 (drop (index s) (buffer s))))
              (s\<lparr>recordChanges := False, index := index s + 2\<rparr>))
           \<lparr>crc := CRC_reset (fold CRC_add (map (dec c) (take 2 (drop (index s) (buffer s)))) (crc s))\<rparr>)"
  using checkCRC_ok [OF assms] by (cases "checkCRC c s") simp

lemma rev_host_bytes_2: "rev (host_bytes 2 (v :: u16)) = [ucast (drop_bit 8 v), ucast v]"
  by (simp add: numeral_2_eq_2)

lemma ntohs_bytes: "ntohs (host_word [ucast (drop_bit 8 v), ucast v]) = (v :: u16)"
  using ntoh_hton(1) [of v] by (simp only: rev_host_bytes_2)

lemma CRC_reset_eq [simp]: "CRC_reset c = \<lparr>crcCounter = 0xFFFF\<rparr>"
  by (simp add: CRC_reset_def)

lemma response18_buffer:
  "buffer (TestFPGA_processServerStatus a mode status faults (clear b r)) =
     map (enc ILC_class)
       [a, 18, mode, ucast (drop_bit 8 status), ucast status, ucast (drop_bit 8 faults), ucast faults,
        ucast (crcCounter (fold CRC_add [a, 18, mode, ucast (drop_bit 8 status), ucast status,
                 ucast (drop_bit 8 faults), ucast faults] \<lparr>crcCounter = 0xFFFF\<rparr>) AND 0xFF),
        ucast (drop_bit 8 (crcCounter (fold CRC_add [a, 18, mode, ucast (drop_bit 8 status), ucast status,
                 ucast (drop_bit 8 faults), ucast faults] \<lparr>crcCounter = 0xFFFF\<rparr>)) AND 0xFF)]"
  by (simp add: TestFPGA_processServerStatus_def Let_def buffer_writeCRC rev_host_bytes_2
      getCalcCrc_def CRC_get_def writeBuffer_eq write_uint8_def write_uint16_def hton_bytes
      del: fold_simps)

lemma response18_bytes:
  "map (dec ILC_class) (buffer (TestFPGA_processServerStatus a mode status faults (clear b r))) =
       [a, 18, mode, ucast (drop_bit 8 status), ucast status, ucast (drop_bit 8 faults), ucast faults,
        ucast (crcCounter (fold CRC_add [a, 18, mode, ucast (drop_bit 8 status), ucast status,
                 ucast (drop_bit 8 faults), ucast faults] \<lparr>crcCounter = 0xFFFF\<rparr>) AND 0xFF),
        ucast (drop_bit 8 (crcCounter (fold CRC_add [a, 18, mode, ucast (drop_bit 8 status), ucast status,
                 ucast (drop_bit 8 faults), ucast faults] \<lparr>crcCounter = 0xFFFF\<rparr>)) AND 0xFF)]"
  unfolding response18_buffer by (simp del: fold_simps)

lemma ILC_tables_18 [simp]:
  "ILC_errorActions 18 = None" "ILC_actions 18 = Some ILC_response18"
  by (simp_all add: ILC_errorActions_def ILC_actions_def)

lemma checkCRC_fail:
  assumes "index s + 2 \<le> length (buffer s)"
    and "host_word (map (dec c) (take 2 (drop (index s) (buffer s)))) \<noteq> getCalcCrc s"
  shows "checkCRC c s =
      (Inl (CRCError (getCalcCrc s) (host_word (map (dec c) (take 2 (drop (index s) (buffer s)))))),
       accum (map (dec c) (take 2 (drop (index s) (buffer s))))
              (s\<lparr>recordChanges := False, index := index s + 2\<rparr>))"
proof -
  let ?s1 = "s\<lparr>recordChanges := False\<rparr>"
  from assms(1) have "index ?s1 + 2 \<le> length (buffer ?s1)" by simp
  note rb = readBuffer_eq [OF this, of c]
  from assms(2) rb show ?thesis
    by (simp add: checkCRC_def bindE_def getE_def liftE_def Let_def throwE_def getCalcCrc_def)
qed

text \<open>
  What the reads of a nine-word frame see: only the bytes \<open>readInstructionByte\<close> extracts
  from the words matter, not the command bits around them.
\<close>

lemma frame_bytes:
  assumes "map (dec c) ws = [b0, b1, b2, b3, b4, b5, b6, b7, b8]"
  shows "length ws = 9"
    and "dec c (ws ! 0) = b0" and "dec c (ws ! Suc 0) = b1" and "dec c (ws ! 2) = b2"
    and "map (dec c) (take 2 (drop 3 ws)) = [b3, b4]"
    and "map (dec c) (take 2 (drop 5 ws)) = [b5, b6]"
    and "map (dec c) (take 2 (drop 7 ws)) = [b7, b8]"
    and "map (dec c) (drop 7 ws) = [b7, b8]"
proof -
  from assms have "length (map (dec c) ws) = 9" by simp
  then show len: "length ws = 9" by simp
  have n: "dec c (ws ! k) = [b0, b1, b2, b3, b4, b5, b6, b7, b8] ! k" if "k < 9" for k
    using that len nth_map [of k ws "dec c"] by (simp only: assms)
  from n [of 0] show "dec c (ws ! 0) = b0" by simp
  from n [of 1] show "dec c (ws ! Suc 0) = b1" by simp
  from n [of 2] show "dec c (ws ! 2) = b2" by simp
  have t: "map (dec c) (take 2 (drop k ws)) = take 2 (drop k (map (dec c) ws))" for k
    by (simp add: take_map drop_map)
  show "map (dec c) (take 2 (drop 3 ws)) = [b3, b4]" unfolding t assms by simp
  show "map (dec c) (take 2 (drop 5 ws)) = [b5, b6]" unfolding t assms by simp
  show "map (dec c) (take 2 (drop 7 ws)) = [b7, b8]" unfolding t assms by simp
  show "map (dec c) (drop 7 ws) = [b7, b8]" unfolding drop_map [symmetric] assms by simp
qed

lemma frame18_parse:
  fixes s :: "'a ILC_scheme"
  assumes buf: "map (dec ILC_class) (buffer s) = [a, 18, mode, sh, sl, fh, fl, lo, hi]"
    and idx: "index s = 0"
    and crc0: "crc s = \<lparr>crcCounter = 0xFFFF\<rparr>"
    and rc: "recordChanges s = False"
    and cmd: "commanded s = (a, 18) # rest"
  shows "processResponse_frame s =
     bindE (checkCRC ILC_class) (\<lambda>u.
     bindE (valE (responseMatchCached a 18)) (\<lambda>m.
       if m = False
       then bindE (liftE (\<lambda>s. s\<lparr>lastMode := (lastMode s)(a \<mapsto> mode)\<rparr>)) (\<lambda>u.
            liftE (processHook (ProcessServerStatus a mode (ntohs (host_word [sh, sl]))
               (ntohs (host_word [fh, fl])))))
       else returnE ()))
     (s\<lparr>index := 7,
        crc := fold CRC_add [a, 18, mode, sh, sl, fh, fl] \<lparr>crcCounter = 0xFFFF\<rparr>,
        commanded := rest, recordChanges := True,
        records := records s @ [mode, sh, sl, fh, fl]\<rparr>)"
proof -
  note fb = frame_bytes [OF buf]
  define s1 where "s1 = accum [a] (s\<lparr>index := Suc 0\<rparr>)"
  have r1: "read_uint8 ILC_class s = (Inr a, s1)"
    using read_uint8_eq [of s ILC_class] by (simp add: fb idx s1_def)
  have p1: "buffer s1 = buffer s" "index s1 = 1" "crc s1 = fold CRC_add [a] \<lparr>crcCounter = 0xFFFF\<rparr>"
    "recordChanges s1 = False" "records s1 = records s" "commanded s1 = commanded s"
    by (simp_all add: s1_def rc crc0)
  define s2 where "s2 = accum [18] (s1\<lparr>index := Suc (Suc 0)\<rparr>)"
  have r2: "read_uint8 ILC_class s1 = (Inr 18, s2)"
    using read_uint8_eq [of s1 ILC_class] by (simp add: fb p1 s2_def)
  have p2: "buffer s2 = buffer s" "index s2 = 2" "crc s2 = fold CRC_add [a, 18] \<lparr>crcCounter = 0xFFFF\<rparr>"
    "recordChanges s2 = False" "records s2 = records s" "commanded s2 = commanded s"
    by (simp_all add: s2_def p1)
  define s3 where "s3 = s2\<lparr>commanded := rest\<rparr>"
  have r3: "checkCommanded a 18 s2 = (Inr (), s3)"
    by (simp add: checkCommanded_def returnE_def Let_def p2 cmd s3_def)
  define s4 where "s4 = do_recordChanges s3"
  have p4: "buffer s4 = buffer s" "index s4 = 2" "crc s4 = fold CRC_add [a, 18] \<lparr>crcCounter = 0xFFFF\<rparr>"
    "recordChanges s4 = True" "records s4 = records s"
    by (simp_all add: s4_def s3_def do_recordChanges_def p2)
  define s5 where "s5 = accum [mode] (s4\<lparr>index := 3\<rparr>)"
  have r5: "read_uint8 ILC_class s4 = (Inr mode, s5)"
    using read_uint8_eq [of s4 ILC_class] by (simp add: fb p4 s5_def)
  have p5: "buffer s5 = buffer s" "index s5 = 3" "crc s5 = fold CRC_add [a, 18, mode] \<lparr>crcCounter = 0xFFFF\<rparr>"
    "recordChanges s5 = True" "records s5 = records s @ [mode]"
    by (simp_all add: s5_def p4)
  define s6 where "s6 = accum [sh, sl] (s5\<lparr>index := 5\<rparr>)"
  have r6: "read_uint16 ILC_class s5 = (Inr (ntohs (host_word [sh, sl])), s6)"
    using read_uint16_eq [of s5 ILC_class] by (simp add: fb p5 s6_def)
  have p6: "buffer s6 = buffer s" "index s6 = 5"
    "crc s6 = fold CRC_add [a, 18, mode, sh, sl] \<lparr>crcCounter = 0xFFFF\<rparr>"
    "recordChanges s6 = True" "records s6 = records s @ [mode, sh, sl]"
    by (simp_all add: s6_def p5)
  define s7 where "s7 = accum [fh, fl] (s6\<lparr>index := 7\<rparr>)"
  have r7: "read_uint16 ILC_class s6 = (Inr (ntohs (host_word [fh, fl])), s7)"
    using read_uint16_eq [of s6 ILC_class] by (simp add: fb p6 s7_def)
  have s7: "s7 = s\<lparr>index := 7,
        crc := fold CRC_add [a, 18, mode, sh, sl, fh, fl] \<lparr>crcCounter = 0xFFFF\<rparr>,
        commanded := rest, recordChanges := True,
        records := records s @ [mode, sh, sl, fh, fl]\<rparr>"
    by (simp add: s7_def s6_def s5_def s4_def s3_def s2_def s1_def accum_def
        do_recordChanges_def rc crc0)
  show ?thesis
    unfolding processResponse_frame_def
    apply (simp only: bindE_Inr [of "read_uint8 ILC_class" s a s1, OF r1])
    apply (simp only: bindE_Inr [of "read_uint8 ILC_class" s1 18 s2, OF r2])
    apply (simp only: ILC_tables_18 option.case)
    apply (simp only: bindE_Inr [of "checkCommanded a 18" s2 "()" s3, OF r3])
    apply (simp only: ILC_response18_def)
    apply (simp only: bindE_Inr [of "liftE do_recordChanges" s3 "()" s4, OF liftE_def [of do_recordChanges s3, folded s4_def]])
    apply (simp only: bindE_Inr [of "read_uint8 ILC_class" s4 mode s5, OF r5])
    apply (simp only: bindE_Inr [of "read_uint16 ILC_class" s5 _ s6, OF r6])
    apply (simp only: bindE_Inr [of "read_uint16 ILC_class" s6 _ s7, OF r7])
    apply (simp only: s7)
    done
qed

lemma frame18:
  fixes s :: "'a ILC_scheme"
  assumes buf: "map (dec ILC_class) (buffer s) = [a, 18, mode, sh, sl, fh, fl, lo, hi]"
    and idx: "index s = 0"
    and crc0: "crc s = \<lparr>crcCounter = 0xFFFF\<rparr>"
    and rc: "recordChanges s = False"
    and cmd: "commanded s = (a, 18) # rest"
    and valid: "host_word [lo, hi] =
                  crcCounter (fold CRC_add [a, 18, mode, sh, sl, fh, fl] \<lparr>crcCounter = 0xFFFF\<rparr>)"
  shows "processResponse_frame s =
     (Inr (),
      (let recs = records s @ [mode, sh, sl, fh, fl];
           fc = (case cachedResponse s a of None \<Rightarrow> [18 \<mapsto> []] | Some fc \<Rightarrow> fc);
           cached = (case fc 18 of None \<Rightarrow> [] | Some v \<Rightarrow> v);
           changed = (cached \<noteq> recs \<or> alwaysTrigger s)
       in s\<lparr>index := 9, crc := \<lparr>crcCounter = 0xFFFF\<rparr>, commanded := rest,
             recordChanges := False, records := [],
             cachedResponse := (cachedResponse s)(a \<mapsto> fc(18 \<mapsto> recs)),
             lastMode := (if changed then (lastMode s)(a \<mapsto> mode) else lastMode s),
             calls := (if changed
                       then calls s @ [ProcessServerStatus a mode (ntohs (host_word [sh, sl]))
                                         (ntohs (host_word [fh, fl]))]
                       else calls s)\<rparr>))"
proof -
  note fb = frame_bytes [OF buf]
  define s7 where "s7 = s\<lparr>index := 7,
        crc := fold CRC_add [a, 18, mode, sh, sl, fh, fl] \<lparr>crcCounter = 0xFFFF\<rparr>,
        commanded := rest, recordChanges := True,
        records := records s @ [mode, sh, sl, fh, fl]\<rparr>"
  define s8 where "s8 = s\<lparr>index := 9, crc := \<lparr>crcCounter = 0xFFFF\<rparr>, commanded := rest,
                    recordChanges := False, records := records s @ [mode, sh, sl, fh, fl]\<rparr>"
  have r8: "checkCRC ILC_class s7 = (Inr (), s8)"
    using checkCRC_eq [of s7 ILC_class] valid
    by (simp add: fb s7_def s8_def getCalcCrc_def CRC_get_def accum_def
        del: fold_simps host_word.simps)
  show ?thesis
    unfolding frame18_parse [OF buf idx crc0 rc cmd] s7_def [symmetric]
    apply (simp only: bindE_Inr [of "checkCRC ILC_class" s7 "()" s8, OF r8])
    apply (simp add: s8_def bindE_def valE_def liftE_def returnE_def responseMatchCached_def
        checkRecording_def processHook_def Let_def split: option.splits)
    done
qed

lemma frame18_bad_CRC:
  fixes s :: "'a ILC_scheme"
  assumes buf: "map (dec ILC_class) (buffer s) = [a, 18, mode, sh, sl, fh, fl, lo, hi]"
    and idx: "index s = 0"
    and crc0: "crc s = \<lparr>crcCounter = 0xFFFF\<rparr>"
    and rc: "recordChanges s = False"
    and cmd: "commanded s = (a, 18) # rest"
    and invalid: "host_word [lo, hi] \<noteq>
                  crcCounter (fold CRC_add [a, 18, mode, sh, sl, fh, fl] \<lparr>crcCounter = 0xFFFF\<rparr>)"
  shows "processResponse_frame s =
     (Inl (CRCError (crcCounter (fold CRC_add [a, 18, mode, sh, sl, fh, fl] \<lparr>crcCounter = 0xFFFF\<rparr>))
             (host_word [lo, hi])),
      s\<lparr>index := 9,
         crc := fold CRC_add [a, 18, mode, sh, sl, fh, fl, lo, hi] \<lparr>crcCounter = 0xFFFF\<rparr>,
         commanded := rest, recordChanges := False,
         records := records s @ [mode, sh, sl, fh, fl]\<rparr>)"
proof -
  note fb = frame_bytes [OF buf]
  define s7 where "s7 = s\<lparr>index := 7,
        crc := fold CRC_add [a, 18, mode, sh, sl, fh, fl] \<lparr>crcCounter = 0xFFFF\<rparr>,
        commanded := rest, recordChanges := True,
        records := records s @ [mode, sh, sl, fh, fl]\<rparr>"
  have r8: "checkCRC ILC_class s7 =
     (Inl (CRCError (crcCounter (fold CRC_add [a, 18, mode, sh, sl, fh, fl] \<lparr>crcCounter = 0xFFFF\<rparr>))
             (host_word [lo, hi])),
      s\<lparr>index := 9,
         crc := fold CRC_add [a, 18, mode, sh, sl, fh, fl, lo, hi] \<lparr>crcCounter = 0xFFFF\<rparr>,
         commanded := rest, recordChanges := False,
         records := records s @ [mode, sh, sl, fh, fl]\<rparr>)"
    using checkCRC_fail [of s7 ILC_class] invalid
    by (simp add: fb s7_def getCalcCrc_def CRC_get_def accum_def
        del: fold_simps host_word.simps)
  show ?thesis
    unfolding frame18_parse [OF buf idx crc0 rc cmd] s7_def [symmetric]
    by (simp add: bindE_def r8)
qed

lemma loop_single_frame:
  assumes "index s < length (buffer s)"
    and "processResponse_frame s = (Inr (), s')"
    and "index s' \<ge> length (buffer s')"
  shows "processResponse_loop s = (Inr (), s')"
proof -
  from assms(3) have "processResponse_loop s' = (Inr (), s')"
    by (subst processResponse_loop.simps) (simp add: endOfBuffer_def)
  with assms(1,2) show ?thesis
    by (subst processResponse_loop.simps) (simp add: endOfBuffer_def)
qed

lemma processResponse18:
  fixes s :: "'a ILC_scheme" and r :: "'b ModbusBuffer_scheme"
  assumes bytes: "map (dec ILC_class) resp =
      map (dec ILC_class) (buffer (TestFPGA_processServerStatus a mode status faults (clear False r)))"
    and idle: "recordChanges s = False"
    and cmd: "commanded s = (a, 18) # rest"
  shows "processResponse resp s =
     (Inr (),
      (let recs = records s @
             [mode, ucast (drop_bit 8 status), ucast status, ucast (drop_bit 8 faults), ucast faults];
           fc = (case cachedResponse s a of None \<Rightarrow> [18 \<mapsto> []] | Some fc \<Rightarrow> fc);
           cached = (case fc 18 of None \<Rightarrow> [] | Some v \<Rightarrow> v);
           changed = (cached \<noteq> recs \<or> alwaysTrigger s)
       in s\<lparr>buffer := resp,
             index := 9, crc := \<lparr>crcCounter = 0xFFFF\<rparr>, commanded := rest,
             recordChanges := False, records := [],
             cachedResponse := (cachedResponse s)(a \<mapsto> fc(18 \<mapsto> recs)),
             lastMode := (if changed then (lastMode s)(a \<mapsto> mode) else lastMode s),
             calls := (if changed then calls s @ [ProcessServerStatus a mode status faults]
                       else calls s)\<rparr>))"
proof -
  define K where "K = crcCounter (fold CRC_add [a, 18, mode, ucast (drop_bit 8 status), ucast status,
                 ucast (drop_bit 8 faults), ucast faults] \<lparr>crcCounter = 0xFFFF\<rparr>)"
  define S0 where "S0 = setBuffer resp s"
  have resp: "map (dec ILC_class) resp =
       [a, 18, mode, ucast (drop_bit 8 status), ucast status, ucast (drop_bit 8 faults), ucast faults,
        ucast (K AND 0xFF), ucast (drop_bit 8 K AND 0xFF)]"
    unfolding bytes K_def by (rule response18_bytes)
  have b: "map (dec ILC_class) (buffer S0) =
       [a, 18, mode, ucast (drop_bit 8 status), ucast status, ucast (drop_bit 8 faults), ucast faults,
        ucast (K AND 0xFF), ucast (drop_bit 8 K AND 0xFF)]"
    by (simp add: S0_def setBuffer_def resp)
  have p: "index S0 = 0" "crc S0 = \<lparr>crcCounter = 0xFFFF\<rparr>" "recordChanges S0 = False"
    "commanded S0 = (a, 18) # rest"
    by (simp_all add: S0_def setBuffer_def idle cmd)
  have v: "host_word [ucast (K AND 0xFF), ucast (drop_bit 8 K AND 0xFF)] =
      crcCounter (fold CRC_add [a, 18, mode, ucast (drop_bit 8 status), ucast status,
                 ucast (drop_bit 8 faults), ucast faults] \<lparr>crcCounter = 0xFFFF\<rparr>)"
    unfolding K_def [symmetric] by (rule crc_bytes)
  note f = frame18 [OF b p v, unfolded ntohs_bytes]
  have "processResponse_loop S0 = (Inr (), snd (processResponse_frame S0))"
    by (rule loop_single_frame) (simp_all add: f frame_bytes(1) [OF b] p Let_def)
  then have "processResponse resp s = (Inr (), snd (processResponse_frame S0))"
    by (simp only: processResponse_def S0_def)
  also have "snd (processResponse_frame S0) =
      (let recs = records s @
             [mode, ucast (drop_bit 8 status), ucast status, ucast (drop_bit 8 faults), ucast faults];
           fc = (case cachedResponse s a of None \<Rightarrow> [18 \<mapsto> []] | Some fc \<Rightarrow> fc);
           cached = (case fc 18 of None \<Rightarrow> [] | Some v \<Rightarrow> v);
           changed = (cached \<noteq> recs \<or> alwaysTrigger s)
       in s\<lparr>buffer := resp,
             index := 9, crc := \<lparr>crcCounter = 0xFFFF\<rparr>, commanded := rest,
             recordChanges := False, records := [],
             cachedResponse := (cachedResponse s)(a \<mapsto> fc(18 \<mapsto> recs)),
             lastMode := (if changed then (lastMode s)(a \<mapsto> mode) else lastMode s),
             calls := (if changed then calls s @ [ProcessServerStatus a mode status faults]
                       else calls s)\<rparr>)"
    by (subst arg_cong [OF f, of snd, unfolded snd_conv])
       (simp add: S0_def setBuffer_def Let_def)
  finally show ?thesis .
qed


text \<open>
  Two responses that carry the bytes of the same status answer, whatever command bits
  surround the bytes, processed by an \<open>ILC\<close> with \<open>_alwaysTrigger\<close> unset, nothing cached
  for the address, recording off and nothing recorded: both calls return, the first invokes
  \<open>processServerStatus\<close>, the second does not, and the mode of the answer is the last mode
  of the address.
\<close>

lemma gating_without_stale_record:
  fixes s :: "'a ILC_scheme" and r :: "'b ModbusBuffer_scheme"
  assumes "alwaysTrigger s = False"
    and "cachedResponse s a = None"
    and "recordChanges s = False" and "records s = []"
    and "commanded s = (a, 18) # (a, 18) # rest"
    and "map (dec ILC_class) resp1 =
      map (dec ILC_class) (buffer (TestFPGA_processServerStatus a mode status faults (clear False r)))"
    and "map (dec ILC_class) resp2 =
      map (dec ILC_class) (buffer (TestFPGA_processServerStatus a mode status faults (clear False r)))"
  shows
    "fst (processResponse resp1 s) = Inr () \<and>
     calls (snd (processResponse resp1 s)) = calls s @ [ProcessServerStatus a mode status faults] \<and>
     fst (processResponse resp2 (snd (processResponse resp1 s))) = Inr () \<and>
     calls (snd (processResponse resp2 (snd (processResponse resp1 s))))
       = calls s @ [ProcessServerStatus a mode status faults] \<and>
     lastMode (snd (processResponse resp2 (snd (processResponse resp1 s)))) a = Some mode"
proof -
  define recs where "recs = [mode, ucast (drop_bit 8 status), ucast status,
      ucast (drop_bit 8 faults), ucast faults]"
  define s1 where "s1 = snd (processResponse resp1 s)"
  have first: "processResponse resp1 s =
     (Inr (), s\<lparr>buffer := resp1, index := 9, crc := \<lparr>crcCounter = 0xFFFF\<rparr>,
        commanded := (a, 18) # rest, recordChanges := False, records := [],
        cachedResponse := (cachedResponse s)(a \<mapsto> [18 \<mapsto> recs]),
        lastMode := (lastMode s)(a \<mapsto> mode),
        calls := calls s @ [ProcessServerStatus a mode status faults]\<rparr>)"
    unfolding recs_def
    by (subst processResponse18 [OF assms(6,3,5)]) (simp add: assms(1,2,4) Let_def)
  then have s1: "alwaysTrigger s1 = False" "cachedResponse s1 a = Some [18 \<mapsto> recs]"
    "recordChanges s1 = False" "records s1 = []" "commanded s1 = (a, 18) # rest"
    "calls s1 = calls s @ [ProcessServerStatus a mode status faults]"
    "lastMode s1 a = Some mode"
    by (simp_all add: s1_def assms(1))
  have second: "processResponse resp2 s1 =
     (Inr (), s1\<lparr>buffer := resp2, index := 9, crc := \<lparr>crcCounter = 0xFFFF\<rparr>,
        commanded := rest, recordChanges := False, records := [],
        cachedResponse := (cachedResponse s1)(a \<mapsto> [18 \<mapsto> recs]),
        lastMode := lastMode s1, calls := calls s1\<rparr>)"
    unfolding recs_def
    by (subst processResponse18 [OF assms(7) s1(3,5)])
       (simp add: s1(1,4) s1(2) [unfolded recs_def] Let_def)
  have f1: "fst (processResponse resp1 s) = Inr ()" by (simp add: first)
  show ?thesis
    unfolding s1_def [symmetric]
    by (simp add: f1 second s1)
qed

text \<open>
  The same with bytes left in \<open>_records\<close>: the first response is cached with those bytes in
  front, the second, though identical, differs from what is cached, and
  \<open>processServerStatus\<close> is invoked for both.
\<close>

lemma gating_with_stale_record:
  fixes s :: "'a ILC_scheme" and r :: "'b ModbusBuffer_scheme"
  assumes "alwaysTrigger s = False"
    and "cachedResponse s a = None"
    and "recordChanges s = False" and "records s \<noteq> []"
    and "commanded s = (a, 18) # (a, 18) # rest"
    and "map (dec ILC_class) resp1 =
      map (dec ILC_class) (buffer (TestFPGA_processServerStatus a mode status faults (clear False r)))"
    and "map (dec ILC_class) resp2 =
      map (dec ILC_class) (buffer (TestFPGA_processServerStatus a mode status faults (clear False r)))"
  shows
    "fst (processResponse resp1 s) = Inr () \<and>
     fst (processResponse resp2 (snd (processResponse resp1 s))) = Inr () \<and>
     calls (snd (processResponse resp2 (snd (processResponse resp1 s))))
       = calls s @ [ProcessServerStatus a mode status faults, ProcessServerStatus a mode status faults] \<and>
     lastMode (snd (processResponse resp2 (snd (processResponse resp1 s)))) a = Some mode"
proof -
  define recs where "recs = [mode, ucast (drop_bit 8 status), ucast status,
      ucast (drop_bit 8 faults), ucast faults]"
  define s1 where "s1 = snd (processResponse resp1 s)"
  have first: "processResponse resp1 s =
     (Inr (), s\<lparr>buffer := resp1, index := 9, crc := \<lparr>crcCounter = 0xFFFF\<rparr>,
        commanded := (a, 18) # rest, recordChanges := False, records := [],
        cachedResponse := (cachedResponse s)(a \<mapsto> [18 \<mapsto> records s @ recs]),
        lastMode := (lastMode s)(a \<mapsto> mode),
        calls := calls s @ [ProcessServerStatus a mode status faults]\<rparr>)"
    unfolding recs_def
    by (subst processResponse18 [OF assms(6,3,5)]) (simp add: assms(1,2) Let_def)
  then have s1: "alwaysTrigger s1 = False" "cachedResponse s1 a = Some [18 \<mapsto> records s @ recs]"
    "recordChanges s1 = False" "records s1 = []" "commanded s1 = (a, 18) # rest"
    "calls s1 = calls s @ [ProcessServerStatus a mode status faults]"
    by (simp_all add: s1_def assms(1))
  from assms(4) have ne: "records s @ recs \<noteq> recs" by simp
  have second: "processResponse resp2 s1 =
     (Inr (), s1\<lparr>buffer := resp2, index := 9, crc := \<lparr>crcCounter = 0xFFFF\<rparr>,
        commanded := rest, recordChanges := False, records := [],
        cachedResponse := (cachedResponse s1)(a \<mapsto> [18 \<mapsto> recs]),
        lastMode := (lastMode s1)(a \<mapsto> mode),
        calls := calls s1 @ [ProcessServerStatus a mode status faults]\<rparr>)"
    unfolding recs_def
    by (subst processResponse18 [OF assms(7) s1(3,5)])
       (use ne in \<open>simp add: s1(1,4) s1(2) Let_def recs_def\<close>)
  have f1: "fst (processResponse resp1 s) = Inr ()" by (simp add: first)
  show ?thesis
    unfolding s1_def [symmetric]
    by (simp add: f1 second s1)
qed

lemma loop_failing_frame:
  assumes "index s < length (buffer s)"
    and "processResponse_frame s = (Inl e, s')"
  shows "processResponse_loop s = (Inl e, s')"
  using assms by (subst processResponse_loop.simps) (simp add: endOfBuffer_def)

lemma callFunction_no_params:
  "callFunction a f t [] s =
     pushCommanded a f (ILC_writeWaitForRx t (ILC_writeEndOfFrame
       (writeCRC ILC_class (writeBuffer ILC_class [a, f] s))))"
  by (simp add: callFunction_def write_uint8_def Let_def getByteInstruction_eq)

lemma callFunction_no_params_fields:
  fixes s :: "'a ILC_scheme"
  shows "alwaysTrigger (callFunction a f t [] s) = alwaysTrigger s"
    "cachedResponse (callFunction a f t [] s) = cachedResponse s"
    "recordChanges (callFunction a f t [] s) = recordChanges s"
    "recordChanges s = False \<Longrightarrow> records (callFunction a f t [] s) = records s"
    "calls (callFunction a f t [] s) = calls s"
    "lastMode (callFunction a f t [] s) = lastMode s"
  by (simp_all add: callFunction_no_params pushCommanded_def ILC_writeWaitForRx_def
      ILC_writeEndOfFrame_def pushBuffer_def writeCRC_eq writeBuffer_eq accum_def
      del: fold_simps)

lemma S4_requests_fields:
  "alwaysTrigger S4_requests = False" "cachedResponse S4_requests = Map.empty"
  "recordChanges S4_requests = False" "records S4_requests = []" "calls S4_requests = []"
  "commanded S4_requests = [(8, 18), (8, 18), (8, 18)]"
proof -
  show "alwaysTrigger S4_requests = False" "cachedResponse S4_requests = Map.empty"
    "recordChanges S4_requests = False" "records S4_requests = []" "calls S4_requests = []"
    by (simp_all add: S4_requests_def callFunction_no_params_fields ILC_new_def)
  show "commanded S4_requests = [(8, 18), (8, 18), (8, 18)]"
    by (simp add: S4_requests_def commanded_callFunction ILC_new_def)
qed

lemma S4_crc: "crcCounter (fold CRC_add [8, 18, 0, 0, 0, 0, 0] \<lparr>crcCounter = 0xFFFF\<rparr>) = 45713"
  by (simp add: CRC_add_def CRC_add_loop.simps)

lemma S4_crc_nested:
  "crcCounter (CRC_add 0 (CRC_add 0 (CRC_add 0 (CRC_add 0 (CRC_add 0
     (CRC_add 18 (CRC_add 8 \<lparr>crcCounter = 0xFFFF\<rparr>))))))) = 45713"
  using S4_crc by simp

lemma S4_received_words:
  "S4_received = map (\<lambda>d. RX_MASK OR push_bit 1 (ucast d)) [8, 18, 0, 0, 0, 0, 0, 0x91, 0xB2 :: u8]"
  by (simp add: S4_received_def RX_MASK_def)

lemma S4_response_bytes:
  "map (dec ILC_class) S4_response = [8, 18, 0, 0, 0, 0, 0, 145, 178]"
  unfolding S4_response_def response18_bytes Standby_def
  by (simp add: S4_crc_nested)

lemma S4_received_bytes:
  "map (dec ILC_class) S4_received = [8, 18, 0, 0, 0, 0, 0, 145, 178]"
  by (simp add: S4_received_def dec.simps)

lemma S4_corrupted_bytes:
  "map (dec ILC_class) S4_corrupted = [8, 18, 0, 0, 0, 0, 0, 145, 0]"
  unfolding S4_corrupted_def S4_response_def response18_buffer Standby_def
  by (simp add: S4_crc_nested dec.simps enc.simps TX_MASK_def)

lemma S4_received_corrupted_bytes:
  "map (dec ILC_class) S4_received_corrupted = [8, 18, 0, 0, 0, 0, 0, 145, 0]"
  by (simp add: S4_received_corrupted_def S4_received_def dec.simps)

lemma S4_error:
  assumes "map (dec ILC_class) bad = [8, 18, 0, 0, 0, 0, 0, 145, 0]"
  shows "processResponse bad S4_requests =
     (Inl (CRCError 45713 145),
      S4_requests\<lparr>buffer := bad, index := 9,
         crc := fold CRC_add [8, 18, 0, 0, 0, 0, 0, 145, 0] \<lparr>crcCounter = 0xFFFF\<rparr>,
         commanded := [(8, 18), (8, 18)], recordChanges := False,
         records := [0, 0, 0, 0, 0]\<rparr>)"
proof -
  define S0 where "S0 = setBuffer bad S4_requests"
  have b: "map (dec ILC_class) (buffer S0) = [8, 18, 0, 0, 0, 0, 0, 145, 0]"
    by (simp add: S0_def setBuffer_def assms)
  have p: "index S0 = 0" "crc S0 = \<lparr>crcCounter = 0xFFFF\<rparr>" "recordChanges S0 = False"
    "commanded S0 = (8, 18) # [(8, 18), (8, 18)]"
    by (simp_all add: S0_def setBuffer_def S4_requests_fields)
  have v: "host_word [145, 0] \<noteq>
      crcCounter (fold CRC_add [8, 18, 0, 0, 0, 0, 0] \<lparr>crcCounter = 0xFFFF\<rparr>)"
    unfolding S4_crc by simp
  have "processResponse_loop S0 = processResponse_frame S0"
    using loop_failing_frame [of S0 _ "snd (processResponse_frame S0)"]
    by (simp add: frame18_bad_CRC [OF b p v] frame_bytes(1) [OF b] p)
  then show ?thesis
    unfolding processResponse_def S0_def [symmetric] frame18_bad_CRC [OF b p v]
    by (simp add: S4_crc_nested S0_def setBuffer_def S4_requests_fields)
qed

lemma S4_scenario_eq:
  assumes bad: "map (dec ILC_class) bad = [8, 18, 0, 0, 0, 0, 0, 145, 0]"
    and good: "map (dec ILC_class) good = map (dec ILC_class) S4_response"
  shows "S4_scenario bad good =
     (Inl (CRCError 45713 145), False, None, [(8, 18), (8, 18)],
      Inr (), Inr (),
      [ProcessServerStatus 8 Standby 0 0, ProcessServerStatus 8 Standby 0 0], Some Standby)"
proof -
  define s1 where "s1 = snd (processResponse bad S4_requests)"
  have h: "alwaysTrigger s1 = False" "cachedResponse s1 8 = None"
    "recordChanges s1 = False" "records s1 \<noteq> []"
    "commanded s1 = (8, 18) # (8, 18) # []" "calls s1 = []"
    by (simp_all add: s1_def S4_error [OF bad] S4_requests_fields)
  note g = good [unfolded S4_response_def]
  from gating_with_stale_record [OF h(1-5) g g] h show ?thesis
    by (simp add: S4_scenario_def Let_def s1_def [symmetric])
       (simp add: s1_def S4_error [OF bad])
qed

text \<open>
  With no damaged answer before them, the same two answers call \<open>processServerStatus\<close>
  once.
\<close>

lemma S4_without_error:
  "(let r1 = processResponse S4_received S4_requests;
        r2 = processResponse S4_received (snd r1)
    in (fst r1, calls (snd r1), fst r2, calls (snd r2), lastMode (snd r2) 8)) =
   (Inr (), [ProcessServerStatus 8 Standby 0 0], Inr (), [ProcessServerStatus 8 Standby 0 0],
    Some Standby)"
proof -
  have g: "map (dec ILC_class) S4_received =
      map (dec ILC_class) (buffer (TestFPGA_processServerStatus 8 Standby 0 0 (clear False (ILC_new 1))))"
    using S4_received_bytes S4_response_bytes by (simp only: S4_response_def)
  have c: "commanded S4_requests = (8, 18) # (8, 18) # [(8, 18)]"
    by (simp add: S4_requests_fields)
  have e: "cachedResponse S4_requests 8 = None" by (simp add: S4_requests_fields)
  from gating_without_stale_record [OF S4_requests_fields(1) e S4_requests_fields(3,4) c g g]
  show ?thesis by (simp add: Let_def S4_requests_fields)
qed


text \<open>
  Claim C4.  The claim asks that of two identical function-18 responses with valid CRCs for
  the same commanded address, with \<open>_alwaysTrigger\<close> unset and nothing cached for the
  address, only the first invokes \<open>processServerStatus\<close>.  In the run below the \<open>ILC\<close> has
  asked address 8 three times.  The first answer arrives with a damaged CRC and
  \<open>processResponse\<close> throws \<open>CRCError\<close>; after it \<open>_alwaysTrigger\<close> is unset, nothing is
  cached for address 8 and two requests are outstanding.  The two answers that follow are
  identical (Standby, status 0, faults 0) and valid, both calls of \<open>processResponse\<close>
  return, and \<open>processServerStatus\<close> is invoked for each of them; the last mode of
  address 8 is Standby.  The five bytes recorded from the damaged answer are still in
  \<open>_records\<close> when the next answer is recorded: \<open>recordChanges()\<close>, \<open>setBuffer()\<close> and the
  throwing path of \<open>checkCRC()\<close> leave them, where \<open>reset()\<close> and \<open>checkRecording()\<close> clear
  them.  The run is the same for the words as the FPGA returns them and as the tests build
  them.
\<close>

theorem change_gating_after_CRC_error:
  "S4_scenario S4_received_corrupted S4_received =
     (Inl (CRCError 45713 145), False, None, [(8, 18), (8, 18)],
      Inr (), Inr (),
      [ProcessServerStatus 8 Standby 0 0, ProcessServerStatus 8 Standby 0 0], Some Standby) \<and>
   S4_scenario S4_corrupted S4_response =
     (Inl (CRCError 45713 145), False, None, [(8, 18), (8, 18)],
      Inr (), Inr (),
      [ProcessServerStatus 8 Standby 0 0, ProcessServerStatus 8 Standby 0 0], Some Standby)"
  using S4_scenario_eq [OF S4_received_corrupted_bytes, of S4_received]
    S4_scenario_eq [OF S4_corrupted_bytes, of S4_response]
  by (simp only: S4_received_bytes S4_response_bytes simp_thms)

end
